theory Spec2Isabelle
  imports Complex_Main "HOL-Library.Word" "HOL-Library.AList"
begin

section \<open>The RIP daemon: data model\<close>

text \<open>
  The development embeds \<^verbatim>\<open>ripmanager.py\<close> and the three range predicates of
  \<^verbatim>\<open>configmanager.py\<close>. Python integers are \<open>int\<close>, a \<^verbatim>\<open>bytes\<close> or
  \<^verbatim>\<open>bytearray\<close> value is a list of 8-bit words, and a dictionary is an association
  list in insertion order (the order in which Python iterates over it). An exception is a
  value of type \<open>error\<close>, returned as \<open>Inl\<close>.

  The clock \<^verbatim>\<open>time.time()\<close> is a parameter \<open>now\<close> of every function that reads it,
  taken once per call, and times are real numbers: the rounding of Python's floats is not
  part of the model. The \<^verbatim>\<open>debug\<close> callback only prints, so it is left out.
\<close>

type_synonym byte = "8 word"

datatype message =
    Packet_length_invalid nat
  | Command_field_not_2
  | Version_field_not_2
  | Router_id_invalid int
  | RIP_entry_length_not_20
  | Address_family_must_be_2
  | Field_must_be_all_zeros
  | Metric_invalid int
  | No_message

datatype error = AssertionError message | OverflowError

subsection \<open>configmanager.py\<close>

record Config =
  router_id :: int
  input_ports :: "int list"
  outputs :: "(int \<times> (int \<times> int)) list"

definition routerid_is_valid :: "int \<Rightarrow> bool" where
  "routerid_is_valid routerid = (1 \<le> routerid \<and> routerid \<le> 64000)"

definition port_is_valid :: "int \<Rightarrow> bool" where
  "port_is_valid port = (1024 \<le> port \<and> port \<le> 64000)"

definition metric_is_valid :: "int \<Rightarrow> bool" where
  "metric_is_valid metric = (1 \<le> metric \<and> metric \<le> 16)"

subsection \<open>Constants of ripmanager.py\<close>

definition TIME_MULTIPLIER :: real where
  "TIME_MULTIPLIER = 6"

definition PERIODIC_UPDATE_DELAY :: real where
  "PERIODIC_UPDATE_DELAY = 30 / TIME_MULTIPLIER"

definition TRIGGERED_UPDATE_DELAY :: real where
  "TRIGGERED_UPDATE_DELAY = 5 / TIME_MULTIPLIER"

definition ENTRY_TIMEOUT_DELAY :: real where
  "ENTRY_TIMEOUT_DELAY = 180 / TIME_MULTIPLIER"

definition GARBAGE_COLLECTION_DELAY :: real where
  "GARBAGE_COLLECTION_DELAY = 120 / TIME_MULTIPLIER"

definition INFINITE_METRIC :: int where
  "INFINITE_METRIC = 16"

definition POISONED_REVERSE :: bool where
  "POISONED_REVERSE = True"

subsection \<open>Python's bytes\<close>

text \<open>
  \<^verbatim>\<open>int.from_bytes(b)\<close> and \<^verbatim>\<open>x.to_bytes(n)\<close> with their default big-endian byte
  order; \<^verbatim>\<open>to_bytes\<close> raises \<^verbatim>\<open>OverflowError\<close> on a negative integer and on one that
  does not fit in \<open>n\<close> bytes. A slice \<^verbatim>\<open>b[i:j]\<close> stops at the end of the sequence, and
  the slice assignment \<^verbatim>\<open>b[i:j] = v\<close> replaces that part by \<open>v\<close>.
\<close>

definition from_bytes :: "byte list \<Rightarrow> int" where
  "from_bytes bs = foldl (\<lambda>acc b. acc * 256 + uint b) 0 bs"

fun be_bytes :: "nat \<Rightarrow> int \<Rightarrow> byte list" where
  "be_bytes 0 x = []"
| "be_bytes (Suc n) x = be_bytes n (x div 256) @ [word_of_int (x mod 256)]"

definition to_bytes :: "int \<Rightarrow> nat \<Rightarrow> error + byte list" where
  "to_bytes x n = (if x < 0 \<or> 256 ^ n \<le> x then Inl OverflowError else Inr (be_bytes n x))"

definition slice :: "'a list \<Rightarrow> nat \<Rightarrow> nat \<Rightarrow> 'a list" where
  "slice xs i j = take (j - i) (drop i xs)"

definition set_slice :: "'a list \<Rightarrow> nat \<Rightarrow> nat \<Rightarrow> 'a list \<Rightarrow> 'a list" where
  "set_slice xs i j v = take i xs @ v @ drop j xs"

definition bytearray :: "nat \<Rightarrow> byte list" where
  "bytearray n = replicate n 0"

text \<open>\<^verbatim>\<open>range(start, stop, step)\<close> for a positive step.\<close>

function py_range :: "nat \<Rightarrow> nat \<Rightarrow> nat \<Rightarrow> nat list" where
  "py_range start stop step =
     (if step = 0 \<or> stop \<le> start then [] else start # py_range (start + step) stop step)"
  by pat_completeness auto
termination
  by (relation "measure (\<lambda>(start, stop, step). stop - start)") auto

declare py_range.simps [simp del]

section \<open>The wire codec\<close>

subsection \<open>Encoding\<close>

definition empty_rip_packet :: "int \<Rightarrow> error + byte list" where
  "empty_rip_packet our_routerid =
     (let packet = bytearray 4;
          packet = packet[0 := 2];
          packet = packet[1 := 2]
      in case to_bytes our_routerid 2 of
           Inl e \<Rightarrow> Inl e
         | Inr r \<Rightarrow> Inr (set_slice packet 2 4 r))"

definition rip_entry :: "int \<Rightarrow> int \<Rightarrow> error + byte list" where
  "rip_entry destination metric =
     (let entry = bytearray 20 in
      case to_bytes 2 2 of
        Inl e \<Rightarrow> Inl e
      | Inr a \<Rightarrow>
          (let entry = set_slice entry 0 2 a in
           case to_bytes destination 4 of
             Inl e \<Rightarrow> Inl e
           | Inr d \<Rightarrow>
               (let entry = set_slice entry 4 8 d in
                case to_bytes metric 4 of
                  Inl e \<Rightarrow> Inl e
                | Inr m \<Rightarrow> Inr (set_slice entry 16 20 m))))"

subsection \<open>Decoding\<close>

record RipEntry =
  entry_routerid :: int
  entry_metric :: int

record RipPacket =
  routerid :: int
  entries :: "RipEntry list"

definition validate_rip_entry :: "byte list \<Rightarrow> error + unit" where
  "validate_rip_entry entry =
     (if length entry \<noteq> 20 then Inl (AssertionError RIP_entry_length_not_20)
      else if from_bytes (slice entry 0 2) \<noteq> 2 then Inl (AssertionError Address_family_must_be_2)
      else if from_bytes (slice entry 2 4) \<noteq> 0 then Inl (AssertionError Field_must_be_all_zeros)
      else let routerid = from_bytes (slice entry 4 8) in
      if \<not> routerid_is_valid routerid then Inl (AssertionError (Router_id_invalid routerid))
      else if from_bytes (slice entry 8 16) \<noteq> 0 then Inl (AssertionError Field_must_be_all_zeros)
      else let metric = from_bytes (slice entry 16 20) in
      if \<not> metric_is_valid metric then Inl (AssertionError (Metric_invalid metric))
      else Inr ())"

definition new_RipEntry :: "byte list \<Rightarrow> error + RipEntry" where
  "new_RipEntry entry =
     (case validate_rip_entry entry of
        Inl e \<Rightarrow> Inl e
      | Inr _ \<Rightarrow>
          Inr \<lparr>entry_routerid = from_bytes (slice entry 4 8),
               entry_metric = from_bytes (slice entry 16 20)\<rparr>)"

definition validate_rip_packet :: "byte list \<Rightarrow> error + unit" where
  "validate_rip_packet packet =
     (if \<not> 4 + 20 \<le> length packet then Inl (AssertionError (Packet_length_invalid (length packet)))
      else if \<not> length packet \<le> 4 + 20 * 25
        then Inl (AssertionError (Packet_length_invalid (length packet)))
      else if (int (length packet) - 4) mod 20 \<noteq> 0
        then Inl (AssertionError (Packet_length_invalid (length packet)))
      else if packet ! 0 \<noteq> 2 then Inl (AssertionError Command_field_not_2)
      else if packet ! 1 \<noteq> 2 then Inl (AssertionError Version_field_not_2)
      else let routerid = from_bytes (slice packet 2 4) in
      if \<not> routerid_is_valid routerid then Inl (AssertionError (Router_id_invalid routerid))
      else Inr ())"

text \<open>
  The loop of \<^verbatim>\<open>RipPacket.__init__\<close> over the offsets \<^verbatim>\<open>range(4, len(packet), 20)\<close>:
  an entry that raises is skipped, the others are appended in order.
\<close>

fun RipPacket_entries :: "byte list \<Rightarrow> nat list \<Rightarrow> RipEntry list" where
  "RipPacket_entries packet [] = []"
| "RipPacket_entries packet (i # rest) =
     (case new_RipEntry (slice packet i (i + 20)) of
        Inl e \<Rightarrow> RipPacket_entries packet rest
      | Inr r \<Rightarrow> r # RipPacket_entries packet rest)"

definition new_RipPacket :: "byte list \<Rightarrow> error + RipPacket" where
  "new_RipPacket packet =
     (case validate_rip_packet packet of
        Inl e \<Rightarrow> Inl e
      | Inr _ \<Rightarrow>
          Inr \<lparr>routerid = from_bytes (slice packet 2 4),
               entries = RipPacket_entries packet (py_range 4 (length packet) 20)\<rparr>)"

text \<open>
  The encoder of the round-trip law: the header of \<^verbatim>\<open>empty_rip_packet\<close> followed by
  one \<^verbatim>\<open>rip_entry\<close> per element, appended in order as \<^verbatim>\<open>build_packets\<close> does
  with \<^verbatim>\<open>packet += rip_entry(...)\<close>.
\<close>

fun append_entries :: "byte list \<Rightarrow> RipEntry list \<Rightarrow> error + byte list" where
  "append_entries packet [] = Inr packet"
| "append_entries packet (e # es) =
     (case rip_entry (entry_routerid e) (entry_metric e) of
        Inl err \<Rightarrow> Inl err
      | Inr b \<Rightarrow> append_entries (packet @ b) es)"

definition encode_packet :: "int \<Rightarrow> RipEntry list \<Rightarrow> error + byte list" where
  "encode_packet our_routerid es =
     (case empty_rip_packet our_routerid of
        Inl err \<Rightarrow> Inl err
      | Inr packet \<Rightarrow> append_entries packet es)"

subsection \<open>The packet format in the words of the specification\<close>

text \<open>
  The header and entry tables of the specification, written independently of the
  decoder: they are what the decoder is compared with.
\<close>

definition header_valid :: "byte list \<Rightarrow> bool" where
  "header_valid bs =
     (24 \<le> length bs \<and> length bs \<le> 504 \<and> length bs mod 20 = 4 \<and>
      bs ! 0 = 2 \<and> bs ! 1 = 2 \<and>
      1 \<le> from_bytes (take 2 (drop 2 bs)) \<and> from_bytes (take 2 (drop 2 bs)) \<le> 64000)"

definition entry_slices :: "byte list \<Rightarrow> byte list list" where
  "entry_slices bs = map (\<lambda>k. take 20 (drop (4 + 20 * k) bs)) [0..<(length bs - 4) div 20]"

definition entry_well_formed :: "byte list \<Rightarrow> bool" where
  "entry_well_formed e =
     (length e = 20 \<and>
      from_bytes (take 2 e) = 2 \<and>
      from_bytes (take 2 (drop 2 e)) = 0 \<and>
      1 \<le> from_bytes (take 4 (drop 4 e)) \<and> from_bytes (take 4 (drop 4 e)) \<le> 64000 \<and>
      from_bytes (take 8 (drop 8 e)) = 0 \<and>
      1 \<le> from_bytes (take 4 (drop 16 e)) \<and> from_bytes (take 4 (drop 16 e)) \<le> 16)"

definition entry_fields :: "byte list \<Rightarrow> RipEntry" where
  "entry_fields e =
     \<lparr>entry_routerid = from_bytes (take 4 (drop 4 e)),
      entry_metric = from_bytes (take 4 (drop 16 e))\<rparr>"

section \<open>Routing table entries\<close>

record RoutingTableEntry =
  next_hop :: int
  metric :: int
  time_update_due :: real
  time_deletion_due :: "real option"

text \<open>
  The reason string that \<^verbatim>\<open>update_entry\<close> returns, as the branch that produced it with
  the values the string is formatted from.
\<close>

datatype reason =
    Update_is_from_next_hop int int int
  | Better_metric int int int int
  | Over_halfway_to_update_due int int int int

definition new_RoutingTableEntry :: "real \<Rightarrow> int \<Rightarrow> int \<Rightarrow> RoutingTableEntry" where
  "new_RoutingTableEntry now nh m =
     \<lparr>next_hop = nh, metric = m,
      time_update_due = now + ENTRY_TIMEOUT_DELAY, time_deletion_due = None\<rparr>"

definition deletion_process_underway :: "RoutingTableEntry \<Rightarrow> bool" where
  "deletion_process_underway e = (time_deletion_due e \<noteq> None)"

definition over_halfway_to_update_due :: "real \<Rightarrow> RoutingTableEntry \<Rightarrow> bool" where
  "over_halfway_to_update_due now e =
     (let due_in = time_update_due e - now in due_in \<le> ENTRY_TIMEOUT_DELAY / 2)"

text \<open>
  The first part of \<^verbatim>\<open>update_entry\<close>: the three branches, which set the locals
  \<^verbatim>\<open>reason\<close> and \<^verbatim>\<open>update_timeouts\<close> and change next hop and metric.
\<close>

definition update_entry_branches ::
  "real \<Rightarrow> int \<Rightarrow> int \<Rightarrow> RoutingTableEntry \<Rightarrow> reason option \<times> bool \<times> RoutingTableEntry" where
  "update_entry_branches now nh new_metric e =
     (if nh = next_hop e then
        (if metric e \<noteq> new_metric
         then (Some (Update_is_from_next_hop (next_hop e) (metric e) new_metric), True,
               e\<lparr>metric := new_metric\<rparr>)
         else (None, True, e))
      else if new_metric < metric e then
        (Some (Better_metric (next_hop e) (metric e) nh new_metric), True,
         e\<lparr>next_hop := nh, metric := new_metric\<rparr>)
      else if new_metric \<noteq> INFINITE_METRIC \<and> new_metric = metric e \<and>
              over_halfway_to_update_due now e then
        (Some (Over_halfway_to_update_due (next_hop e) (metric e) nh new_metric), True,
         e\<lparr>next_hop := nh, metric := new_metric\<rparr>)
      else (None, False, e))"

text \<open>The second part: the refresh under \<^verbatim>\<open>if update_timeouts\<close>.\<close>

definition refresh_timeouts :: "real \<Rightarrow> RoutingTableEntry \<Rightarrow> RoutingTableEntry" where
  "refresh_timeouts now e =
     (let e = e\<lparr>time_update_due := now + ENTRY_TIMEOUT_DELAY\<rparr>
      in if metric e < INFINITE_METRIC then e\<lparr>time_deletion_due := None\<rparr> else e)"

definition update_entry ::
  "real \<Rightarrow> int \<Rightarrow> int \<Rightarrow> RoutingTableEntry \<Rightarrow> reason option \<times> RoutingTableEntry" where
  "update_entry now nh new_metric e =
     (case update_entry_branches now nh new_metric e of
        (reason, update_timeouts, e') \<Rightarrow>
          (reason, if update_timeouts then refresh_timeouts now e' else e'))"

definition should_begin_deletion :: "real \<Rightarrow> RoutingTableEntry \<Rightarrow> bool" where
  "should_begin_deletion now e =
     (if \<not> deletion_process_underway e
      then metric e \<ge> INFINITE_METRIC \<or> now \<ge> time_update_due e
      else False)"

definition begin_deletion :: "real \<Rightarrow> RoutingTableEntry \<Rightarrow> error + RoutingTableEntry" where
  "begin_deletion now e =
     (if deletion_process_underway e then Inl (AssertionError No_message)
      else Inr (e\<lparr>metric := INFINITE_METRIC,
                  time_deletion_due := Some (now + GARBAGE_COLLECTION_DELAY)\<rparr>))"

definition should_delete :: "real \<Rightarrow> RoutingTableEntry \<Rightarrow> bool" where
  "should_delete now e =
     (if deletion_process_underway e then now \<ge> the (time_deletion_due e) else False)"

section \<open>The RIP manager\<close>

text \<open>
  The state of a \<^verbatim>\<open>RipManager\<close>. The socket is left out: the datagrams that
  \<^verbatim>\<open>send_response_messages\<close> hands to it are returned, each with its port. A store
  \<^verbatim>\<open>d[k] = v\<close> is \<open>AList.update\<close> (in place for a key that is present, at the end
  for a new one) and \<^verbatim>\<open>del d[k]\<close> is \<open>AList.delete\<close>.
\<close>

record RipManager =
  our_routerid :: int
  output_routers :: "(int \<times> (int \<times> int)) list"
  routing_table :: "(int \<times> RoutingTableEntry) list"
  next_periodic_update :: real
  triggered_update_pending :: bool
  next_triggered_update :: real

definition new_RipManager :: "real \<Rightarrow> Config \<Rightarrow> RipManager" where
  "new_RipManager now config =
     \<lparr>our_routerid = router_id config,
      output_routers = outputs config,
      routing_table = [],
      next_periodic_update = now,
      triggered_update_pending = False,
      next_triggered_update = 0\<rparr>"

definition add_to_table :: "real \<Rightarrow> int \<Rightarrow> int \<Rightarrow> int \<Rightarrow> RipManager \<Rightarrow> RipManager" where
  "add_to_table now destination nh m s =
     (if destination = our_routerid s then s
      else case map_of (routing_table s) destination of
             Some e \<Rightarrow>
               s\<lparr>routing_table :=
                    AList.update destination (snd (update_entry now nh m e)) (routing_table s)\<rparr>
           | None \<Rightarrow>
               if m < INFINITE_METRIC
               then s\<lparr>routing_table :=
                         AList.update destination (new_RoutingTableEntry now nh m) (routing_table s)\<rparr>
               else s)"

text \<open>The loop of \<^verbatim>\<open>incoming_message\<close> over the entries of the packet.\<close>

fun incoming_entries :: "real \<Rightarrow> int \<Rightarrow> int \<Rightarrow> RipEntry list \<Rightarrow> RipManager \<Rightarrow> RipManager" where
  "incoming_entries now nh metric_to_next_hop [] s = s"
| "incoming_entries now nh metric_to_next_hop (e # rest) s =
     (let m = min (metric_to_next_hop + entry_metric e) INFINITE_METRIC
      in incoming_entries now nh metric_to_next_hop rest
           (add_to_table now (entry_routerid e) nh m s))"

definition incoming_message :: "real \<Rightarrow> byte list \<Rightarrow> RipManager \<Rightarrow> RipManager" where
  "incoming_message now message s =
     (case new_RipPacket message of
        Inl e \<Rightarrow> s
      | Inr rip_packet \<Rightarrow>
          (let nh = routerid rip_packet in
           case map_of (output_routers s) nh of
             None \<Rightarrow> s
           | Some (port, metric_to_next_hop) \<Rightarrow>
               incoming_entries now nh metric_to_next_hop (entries rip_packet)
                 (add_to_table now nh nh metric_to_next_hop s)))"

text \<open>
  The loop of \<^verbatim>\<open>build_packets\<close> over the routing table, with the locals
  \<^verbatim>\<open>packets\<close> and \<^verbatim>\<open>packet\<close> as arguments.
\<close>

fun build_packets_loop ::
  "int \<Rightarrow> int \<Rightarrow> (int \<times> RoutingTableEntry) list \<Rightarrow> byte list list \<Rightarrow> byte list \<Rightarrow>
   error + byte list list" where
  "build_packets_loop our destination_router_id [] packets packet = Inr (packets @ [packet])"
| "build_packets_loop our destination_router_id ((destination, entry) # rest) packets packet =
     (if next_hop entry = destination_router_id \<and> \<not> POISONED_REVERSE
      then build_packets_loop our destination_router_id rest packets packet
      else
        let m = (if next_hop entry = destination_router_id then INFINITE_METRIC else metric entry)
        in if length packet \<ge> 4 + 20 * 25
           then (case empty_rip_packet our of
                   Inl e \<Rightarrow> Inl e
                 | Inr fresh \<Rightarrow>
                     (case rip_entry destination m of
                        Inl e \<Rightarrow> Inl e
                      | Inr r \<Rightarrow>
                          build_packets_loop our destination_router_id rest
                            (packets @ [packet]) (fresh @ r)))
           else (case rip_entry destination m of
                   Inl e \<Rightarrow> Inl e
                 | Inr r \<Rightarrow>
                     build_packets_loop our destination_router_id rest packets (packet @ r)))"

definition build_packets :: "int \<Rightarrow> RipManager \<Rightarrow> error + byte list list" where
  "build_packets destination_router_id s =
     (case empty_rip_packet (our_routerid s) of
        Inl e \<Rightarrow> Inl e
      | Inr packet \<Rightarrow>
          (case rip_entry destination_router_id INFINITE_METRIC of
             Inl e \<Rightarrow> Inl e
           | Inr r \<Rightarrow>
               build_packets_loop (our_routerid s) destination_router_id (routing_table s)
                 [] (packet @ r)))"

text \<open>
  \<^verbatim>\<open>send_response_messages\<close>: the loop over the neighbours, then the rescheduling.
  The two draws of \<^verbatim>\<open>random.uniform\<close> are the parameters \<open>u_periodic\<close> and
  \<open>u_triggered\<close>.
\<close>

fun send_to_neighbours ::
  "RipManager \<Rightarrow> (int \<times> (int \<times> int)) list \<Rightarrow> error + (byte list \<times> int) list" where
  "send_to_neighbours s [] = Inr []"
| "send_to_neighbours s ((peer_id, (port, m)) # rest) =
     (case build_packets peer_id s of
        Inl e \<Rightarrow> Inl e
      | Inr packets \<Rightarrow>
          (case send_to_neighbours s rest of
             Inl e \<Rightarrow> Inl e
           | Inr sent \<Rightarrow> Inr (map (\<lambda>p. (p, port)) packets @ sent)))"

definition send_response_messages ::
  "real \<Rightarrow> real \<Rightarrow> real \<Rightarrow> RipManager \<Rightarrow> error + RipManager \<times> (byte list \<times> int) list" where
  "send_response_messages now u_periodic u_triggered s =
     (case send_to_neighbours s (output_routers s) of
        Inl e \<Rightarrow> Inl e
      | Inr sent \<Rightarrow>
          Inr (s\<lparr>next_periodic_update := now + PERIODIC_UPDATE_DELAY + u_periodic,
                 triggered_update_pending := False,
                 next_triggered_update := now + u_triggered\<rparr>, sent))"

text \<open>
  The first loop of \<^verbatim>\<open>send_any_updates\<close>: it returns the table with the entries
  whose deletion has begun, the list \<^verbatim>\<open>to_delete\<close> and the flag
  \<^verbatim>\<open>triggered_update_pending\<close>. The assertion of \<^verbatim>\<open>begin_deletion\<close> ends it.
\<close>

fun scan_table ::
  "real \<Rightarrow> (int \<times> RoutingTableEntry) list \<Rightarrow> int list \<Rightarrow> bool \<Rightarrow>
   error + (int \<times> RoutingTableEntry) list \<times> int list \<times> bool" where
  "scan_table now [] to_delete pending = Inr ([], to_delete, pending)"
| "scan_table now ((destination, entry) # rest) to_delete pending =
     (if should_delete now entry then
        (case scan_table now rest (to_delete @ [destination]) True of
           Inl e \<Rightarrow> Inl e
         | Inr (table, result) \<Rightarrow> Inr ((destination, entry) # table, result))
      else if should_begin_deletion now entry then
        (case begin_deletion now entry of
           Inl e \<Rightarrow> Inl e
         | Inr entry' \<Rightarrow>
             (case scan_table now rest to_delete True of
                Inl e \<Rightarrow> Inl e
              | Inr (table, result) \<Rightarrow> Inr ((destination, entry') # table, result)))
      else
        (case scan_table now rest to_delete pending of
           Inl e \<Rightarrow> Inl e
         | Inr (table, result) \<Rightarrow> Inr ((destination, entry) # table, result)))"

definition send_any_updates ::
  "real \<Rightarrow> real \<Rightarrow> real \<Rightarrow> RipManager \<Rightarrow> error + RipManager \<times> (byte list \<times> int) list" where
  "send_any_updates now u_periodic u_triggered s =
     (case scan_table now (routing_table s) [] (triggered_update_pending s) of
        Inl e \<Rightarrow> Inl e
      | Inr (table, to_delete, pending) \<Rightarrow>
          (let s = s\<lparr>routing_table := fold AList.delete to_delete table,
                     triggered_update_pending := pending\<rparr>;
               periodic_update = (now \<ge> next_periodic_update s);
               triggered_update = (triggered_update_pending s \<and> now \<ge> next_triggered_update s)
           in if periodic_update \<or> triggered_update
              then send_response_messages now u_periodic u_triggered s
              else Inr (s, [])))"

text \<open>
  The states of a daemon: the manager is built from the configuration, and the event loop
  of \<^verbatim>\<open>daemon.py\<close> then calls \<^verbatim>\<open>incoming_message\<close> and \<^verbatim>\<open>send_any_updates\<close>
  in any order, with any datagram, at any clock reading and with any random draw. A call
  that raises ends the daemon.
\<close>

inductive reachable :: "Config \<Rightarrow> RipManager \<Rightarrow> bool" for config :: Config where
  start: "reachable config (new_RipManager now config)"
| received: "reachable config s \<Longrightarrow> reachable config (incoming_message now message s)"
| updated: "reachable config s \<Longrightarrow> send_any_updates now u_periodic u_triggered s = Inr (s', sent)
     \<Longrightarrow> reachable config s'"

text \<open>The link metrics of a configuration that \<^verbatim>\<open>validate_config\<close> accepts.\<close>

definition link_metrics_valid :: "Config \<Rightarrow> bool" where
  "link_metrics_valid config = list_all (\<lambda>(r, port, m). metric_is_valid m) (outputs config)"

text \<open>
  The twenty bytes of an entry with destination \<open>d\<close> and metric \<open>m\<close> in the layout
  of the specification; \<open>rip_entry_bytes\<close> below shows that \<^verbatim>\<open>rip_entry\<close> returns
  them.
\<close>

definition entry_bytes :: "int \<Rightarrow> int \<Rightarrow> byte list" where
  "entry_bytes d m = [0, 2, 0, 0] @ be_bytes 4 d @ replicate 8 0 @ be_bytes 4 m"

text \<open>
  A packet that starts with the header of router \<open>our\<close> and the advertisement, as
  \<^verbatim>\<open>build_packets\<close> makes it for the neighbour \<open>peer\<close>, of a route of the table.
\<close>

definition leads_with_route ::
  "int \<Rightarrow> int \<Rightarrow> (int \<times> RoutingTableEntry) list \<Rightarrow> byte list \<Rightarrow> bool" where
  "leads_with_route our peer table q =
     (\<exists>(d, e) \<in> set table. \<exists>h b rest.
        empty_rip_packet our = Inr h \<and>
        rip_entry d (if next_hop e = peer then INFINITE_METRIC else metric e) = Inr b \<and>
        q = (h @ b) @ rest)"

section \<open>Properties of the wire codec\<close>

subsection \<open>Decoding\<close>

lemma packet_length_mod: "4 \<le> n \<Longrightarrow> ((int n - 4) mod 20 = 0) = (n mod 20 = 4)"
  by presburger

lemma validate_rip_packet_iff: "validate_rip_packet bs = Inr () \<longleftrightarrow> header_valid bs"
proof (cases "24 \<le> length bs")
  case True
  then have m: "((int (length bs) - 4) mod 20 = 0) = (length bs mod 20 = 4)"
    by (intro packet_length_mod) simp
  show ?thesis
    unfolding validate_rip_packet_def header_valid_def routerid_is_valid_def slice_def Let_def m
    using True by simp
next
  case False
  then show ?thesis
    by (simp add: validate_rip_packet_def header_valid_def)
qed

lemma validate_rip_packet_isl: "isl (validate_rip_packet bs) \<longleftrightarrow> \<not> header_valid bs"
  using validate_rip_packet_iff [of bs] by (cases "validate_rip_packet bs") auto

lemma validate_rip_entry_iff: "validate_rip_entry e = Inr () \<longleftrightarrow> entry_well_formed e"
  unfolding validate_rip_entry_def entry_well_formed_def routerid_is_valid_def
    metric_is_valid_def slice_def Let_def
  by auto

lemma new_RipEntry_cases:
  "new_RipEntry e = (if entry_well_formed e then Inr (entry_fields e) else Inl (projl (validate_rip_entry e)))"
  using validate_rip_entry_iff [of e]
  by (cases "validate_rip_entry e") (auto simp: new_RipEntry_def entry_fields_def slice_def)

lemma RipPacket_entries_filter:
  "RipPacket_entries bs offs =
     map entry_fields (filter entry_well_formed (map (\<lambda>i. take 20 (drop i bs)) offs))"
  by (induction offs) (simp_all add: new_RipEntry_cases slice_def)

lemma py_range_20: "py_range i (i + 20 * m) 20 = map (\<lambda>k. i + 20 * k) [0..<m]"
proof (induction m arbitrary: i)
  case 0
  show ?case by (subst py_range.simps) simp
next
  case (Suc m)
  have "py_range i (i + 20 * Suc m) 20 = i # py_range (i + 20) ((i + 20) + 20 * m) 20"
    by (subst py_range.simps) (simp add: add.assoc)
  also have "\<dots> = i # map (\<lambda>k. (i + 20) + 20 * k) [0..<m]"
    by (simp only: Suc.IH)
  also have "\<dots> = map (\<lambda>k. i + 20 * k) [0..<Suc m]"
    by (simp add: upt_conv_Cons map_Suc_upt [symmetric] del: upt_Suc)
  finally show ?case .
qed

lemma packet_length_split:
  assumes "(n::nat) mod 20 = 4"
  shows "n = 4 + 20 * ((n - 4) div 20)"
proof -
  have a: "n = 20 * (n div 20) + 4"
    using mult_div_mod_eq [of 20 n] assms by simp
  then have "n - 4 = 20 * (n div 20)" by simp
  then have "(n - 4) div 20 = n div 20" by simp
  with a show ?thesis by simp
qed

lemma py_range_packet:
  assumes "n mod 20 = 4"
  shows "py_range 4 n 20 = map (\<lambda>k. 4 + 20 * k) [0..<(n - 4) div 20]"
proof -
  have "py_range 4 (4 + 20 * ((n - 4) div 20)) 20 = map (\<lambda>k. 4 + 20 * k) [0..<(n - 4) div 20]"
    by (rule py_range_20)
  then show ?thesis using packet_length_split [OF assms] by simp
qed

text \<open>
  C5. Decoding a byte sequence as a \<^verbatim>\<open>RipPacket\<close> raises exactly when a header
  check fails: the length is outside 24..504 or not 4 modulo 20, the command or the version
  byte is not 2, or the sender's router-id is outside 1..64000. When the header is valid,
  the decoded entries are those 20-byte entries of the packet that are well formed, in
  their order: a malformed entry is dropped and the others are kept.
\<close>

theorem decode_header_all_or_nothing_entries_filtered:
  "(isl (new_RipPacket bs) \<longleftrightarrow> \<not> header_valid bs) \<and>
   (header_valid bs \<longrightarrow>
      new_RipPacket bs =
        Inr \<lparr>routerid = from_bytes (take 2 (drop 2 bs)),
             entries = map entry_fields (filter entry_well_formed (entry_slices bs))\<rparr>)"
proof
  show "isl (new_RipPacket bs) \<longleftrightarrow> \<not> header_valid bs"
    using validate_rip_packet_isl [of bs]
    by (cases "validate_rip_packet bs") (simp_all add: new_RipPacket_def)
next
  show "header_valid bs \<longrightarrow>
      new_RipPacket bs =
        Inr \<lparr>routerid = from_bytes (take 2 (drop 2 bs)),
             entries = map entry_fields (filter entry_well_formed (entry_slices bs))\<rparr>"
  proof
    assume h: "header_valid bs"
    then have v: "validate_rip_packet bs = Inr ()" by (simp add: validate_rip_packet_iff)
    from h have "length bs mod 20 = 4" by (simp add: header_valid_def)
    then have r: "py_range 4 (length bs) 20 = map (\<lambda>k. 4 + 20 * k) [0..<(length bs - 4) div 20]"
      by (rule py_range_packet)
    show "new_RipPacket bs =
        Inr \<lparr>routerid = from_bytes (take 2 (drop 2 bs)),
             entries = map entry_fields (filter entry_well_formed (entry_slices bs))\<rparr>"
      by (simp add: new_RipPacket_def v r RipPacket_entries_filter entry_slices_def slice_def comp_def)
  qed
qed



theorem decode_witness:
  "header_valid
     ([2, 2, 0, 3] @ [0, 1, 0, 0, 0, 0, 0, 9, 0, 0, 0, 0, 0, 0, 0, 0, 0, 0, 0, 4]
        @ [0, 2, 0, 0, 0, 0, 0, 5, 0, 0, 0, 0, 0, 0, 0, 0, 0, 0, 0, 1]) \<and>
   new_RipPacket
     ([2, 2, 0, 3] @ [0, 1, 0, 0, 0, 0, 0, 9, 0, 0, 0, 0, 0, 0, 0, 0, 0, 0, 0, 4]
        @ [0, 2, 0, 0, 0, 0, 0, 5, 0, 0, 0, 0, 0, 0, 0, 0, 0, 0, 0, 1]) =
     Inr \<lparr>routerid = 3, entries = [\<lparr>entry_routerid = 5, entry_metric = 1\<rparr>]\<rparr>"
proof -
  let ?bs = "[2, 2, 0, 3] @ [0, 1, 0, 0, 0, 0, 0, 9, 0, 0, 0, 0, 0, 0, 0, 0, 0, 0, 0, 4]
        @ [0, 2, 0, 0, 0, 0, 0, 5, 0, 0, 0, 0, 0, 0, 0, 0, 0, 0, 0, 1 :: byte]"
  have h: "header_valid ?bs"
    by (simp add: header_valid_def from_bytes_def)
  have s: "entry_slices ?bs =
      [[0, 1, 0, 0, 0, 0, 0, 9, 0, 0, 0, 0, 0, 0, 0, 0, 0, 0, 0, 4],
       [0, 2, 0, 0, 0, 0, 0, 5, 0, 0, 0, 0, 0, 0, 0, 0, 0, 0, 0, 1]]"
    by (simp add: entry_slices_def upt_conv_Cons)
  have e: "map entry_fields (filter entry_well_formed (entry_slices ?bs)) =
      [\<lparr>entry_routerid = 5, entry_metric = 1\<rparr>]"
    unfolding s by (simp add: entry_well_formed_def entry_fields_def from_bytes_def)
  have r: "from_bytes (take 2 (drop 2 ?bs)) = 3"
    by (simp add: from_bytes_def)
  from decode_header_all_or_nothing_entries_filtered [of ?bs] h
  show ?thesis unfolding e r by simp
qed

subsection \<open>Encoding and the round trip\<close>

lemma from_bytes_snoc: "from_bytes (bs @ [b]) = from_bytes bs * 256 + uint b"
  by (simp add: from_bytes_def)

lemma length_be_bytes: "length (be_bytes n x) = n"
  by (induction n arbitrary: x) simp_all

lemma uint_byte_of_mod: "uint (word_of_int (x mod 256) :: byte) = x mod 256"
  by (simp add: uint_word_of_int take_bit_eq_mod)

lemma from_bytes_be_bytes: "0 \<le> x \<Longrightarrow> x < 256 ^ n \<Longrightarrow> from_bytes (be_bytes n x) = x"
proof (induction n arbitrary: x)
  case 0
  then show ?case by (simp add: from_bytes_def)
next
  case (Suc n)
  from Suc.prems have "0 \<le> x div 256" "x div 256 < 256 ^ n"
    by (simp_all add: div_less_iff_less_mult mult.commute)
  then have "from_bytes (be_bytes n (x div 256)) = x div 256" by (rule Suc.IH)
  then show ?case by (simp add: from_bytes_snoc uint_byte_of_mod)
qed

lemma from_bytes_zeros: "from_bytes (replicate n 0) = 0"
  by (induction n) (simp_all add: from_bytes_def)

lemma be_bytes_2: "be_bytes 2 2 = [0, 2]"
  by (simp add: numeral_2_eq_2)

lemma replicate_2: "replicate 2 x = [x, x]"
  by (simp add: numeral_2_eq_2)

lemma rip_entry_bytes:
  assumes "0 \<le> d" "d < 256 ^ 4" "0 \<le> m" "m < 256 ^ 4"
  shows "rip_entry d m = Inr (entry_bytes d m)"
  using assms
  by (simp add: rip_entry_def to_bytes_def bytearray_def set_slice_def be_bytes_2 Let_def
      length_be_bytes entry_bytes_def replicate_2)


lemma length_entry_bytes: "length (entry_bytes d m) = 20"
  by (simp add: entry_bytes_def length_be_bytes)

lemma entry_bytes_fields:
  "take 2 (entry_bytes d m) = [0, 2]"
  "take 2 (drop 2 (entry_bytes d m)) = [0, 0]"
  "take 4 (drop 4 (entry_bytes d m)) = be_bytes 4 d"
  "take 8 (drop 8 (entry_bytes d m)) = replicate 8 0"
  "take 4 (drop 16 (entry_bytes d m)) = be_bytes 4 m"
  by (simp_all add: entry_bytes_def length_be_bytes)

lemma new_RipEntry_entry_bytes:
  assumes "routerid_is_valid (entry_routerid e)" "metric_is_valid (entry_metric e)"
  shows "new_RipEntry (entry_bytes (entry_routerid e) (entry_metric e)) = Inr e"
proof -
  from assms have d: "0 \<le> entry_routerid e" "entry_routerid e < 256 ^ 4"
    and m: "0 \<le> entry_metric e" "entry_metric e < 256 ^ 4"
    by (simp_all add: routerid_is_valid_def metric_is_valid_def)
  have fd: "from_bytes (be_bytes 4 (entry_routerid e)) = entry_routerid e"
    using d by (rule from_bytes_be_bytes)
  have fm: "from_bytes (be_bytes 4 (entry_metric e)) = entry_metric e"
    using m by (rule from_bytes_be_bytes)
  have f2: "from_bytes [0, 2] = 2" "from_bytes [0, 0] = 0"
    by (simp_all add: from_bytes_def)
  show ?thesis
    using assms
    by (simp add: new_RipEntry_def validate_rip_entry_def slice_def Let_def length_entry_bytes
        entry_bytes_fields fd fm f2 from_bytes_zeros)
qed

lemma rip_entry_valid:
  assumes "routerid_is_valid (entry_routerid e)" "metric_is_valid (entry_metric e)"
  shows "rip_entry (entry_routerid e) (entry_metric e) =
         Inr (entry_bytes (entry_routerid e) (entry_metric e))"
  using assms by (intro rip_entry_bytes) (simp_all add: routerid_is_valid_def metric_is_valid_def)

lemma bytearray_4: "bytearray 4 = [0, 0, 0, 0]"
  by (simp add: bytearray_def eval_nat_numeral)

lemma empty_rip_packet_valid:
  assumes "routerid_is_valid r"
  shows "empty_rip_packet r = Inr ([2, 2] @ be_bytes 2 r)"
  using assms
  by (simp add: empty_rip_packet_def to_bytes_def bytearray_4 set_slice_def Let_def
      routerid_is_valid_def length_be_bytes)

lemma append_entries_valid:
  assumes "\<forall>e \<in> set es. routerid_is_valid (entry_routerid e) \<and> metric_is_valid (entry_metric e)"
  shows "append_entries packet es =
         Inr (packet @ concat (map (\<lambda>e. entry_bytes (entry_routerid e) (entry_metric e)) es))"
  using assms
  by (induction es arbitrary: packet) (simp_all add: rip_entry_valid)

lemma RipPacket_entries_concat:
  assumes "\<forall>e \<in> set es. routerid_is_valid (entry_routerid e) \<and> metric_is_valid (entry_metric e)"
  shows "RipPacket_entries
           (pre @ concat (map (\<lambda>e. entry_bytes (entry_routerid e) (entry_metric e)) es))
           (map (\<lambda>k. length pre + 20 * k) [0..<length es]) = es"
  using assms
proof (induction es arbitrary: pre)
  case Nil
  show ?case by simp
next
  case (Cons e es)
  let ?b = "entry_bytes (entry_routerid e) (entry_metric e)"
  let ?rest = "concat (map (\<lambda>e. entry_bytes (entry_routerid e) (entry_metric e)) es)"
  have offs: "map (\<lambda>k. length pre + 20 * k) [0..<length (e # es)] =
      length pre # map (\<lambda>k. length (pre @ ?b) + 20 * k) [0..<length es]"
    by (simp add: upt_conv_Cons map_Suc_upt [symmetric] length_entry_bytes add.assoc del: upt_Suc)
  have hd: "new_RipEntry (slice (pre @ ?b @ ?rest) (length pre) (length pre + 20)) = Inr e"
    using Cons.prems by (simp add: slice_def length_entry_bytes new_RipEntry_entry_bytes)
  have tl: "RipPacket_entries ((pre @ ?b) @ ?rest)
      (map (\<lambda>k. length (pre @ ?b) + 20 * k) [0..<length es]) = es"
    using Cons.prems by (intro Cons.IH) simp
  show ?case
    unfolding offs using hd tl by simp
qed

text \<open>
  C6. For a router-id in 1..64000 and a sequence of 1 to 25 entries with destinations in
  1..64000 and metrics in 1..16, the encoder returns a byte sequence, and decoding it
  gives back the router-id and the entries.
\<close>

theorem decode_encode:
  assumes "routerid_is_valid r" "1 \<le> length es" "length es \<le> 25"
    and "\<forall>e \<in> set es. routerid_is_valid (entry_routerid e) \<and> metric_is_valid (entry_metric e)"
  shows "\<exists>bs. encode_packet r es = Inr bs \<and> new_RipPacket bs = Inr \<lparr>routerid = r, entries = es\<rparr>"
proof -
  let ?h = "[2, 2] @ be_bytes 2 r"
  let ?bs = "?h @ concat (map (\<lambda>e. entry_bytes (entry_routerid e) (entry_metric e)) es)"
  have enc: "encode_packet r es = Inr ?bs"
    using assms by (simp add: encode_packet_def empty_rip_packet_valid append_entries_valid)
  have len_concat: "length (concat (map (\<lambda>e. entry_bytes (entry_routerid e) (entry_metric e)) es))
      = 20 * length es"
    by (induction es) (simp_all add: length_entry_bytes)
  have len: "length ?bs = 4 + 20 * length es"
    by (simp add: len_concat length_be_bytes)
  from assms(1) have r: "0 \<le> r" "r < 256 ^ 2" by (simp_all add: routerid_is_valid_def)
  have rid: "from_bytes (slice ?bs 2 4) = r"
    using from_bytes_be_bytes [OF r] by (simp add: slice_def length_be_bytes)
  have mod: "(int (length ?bs) - 4) mod 20 = 0"
    unfolding len by simp
  have valid: "validate_rip_packet ?bs = Inr ()"
    unfolding validate_rip_packet_def Let_def rid mod
    using assms(1-3) by (simp add: len_concat length_be_bytes)
  have range: "py_range 4 (length ?bs) 20 = map (\<lambda>k. length ?h + 20 * k) [0..<length es]"
    unfolding len using py_range_20 [of 4 "length es"] by (simp add: length_be_bytes)
  have "RipPacket_entries ?bs (py_range 4 (length ?bs) 20) = es"
    unfolding range using assms(4) by (rule RipPacket_entries_concat)
  then have "new_RipPacket ?bs = Inr \<lparr>routerid = r, entries = es\<rparr>"
    by (simp only: new_RipPacket_def valid rid sum.case)
  with enc show ?thesis by blast
qed


theorem decode_encode_witness:
  "routerid_is_valid 3 \<and>
   1 \<le> length [\<lparr>entry_routerid = 5, entry_metric = 1\<rparr>, \<lparr>entry_routerid = 64000, entry_metric = 16\<rparr>] \<and>
   length [\<lparr>entry_routerid = 5, entry_metric = 1\<rparr>, \<lparr>entry_routerid = 64000, entry_metric = 16\<rparr>] \<le> 25 \<and>
   (\<exists>bs. encode_packet 3
           [\<lparr>entry_routerid = 5, entry_metric = 1\<rparr>, \<lparr>entry_routerid = 64000, entry_metric = 16\<rparr>]
         = Inr bs \<and>
        new_RipPacket bs =
          Inr \<lparr>routerid = 3,
               entries = [\<lparr>entry_routerid = 5, entry_metric = 1\<rparr>,
                          \<lparr>entry_routerid = 64000, entry_metric = 16\<rparr>]\<rparr>)"
  using decode_encode [of 3 "[\<lparr>entry_routerid = 5, entry_metric = 1\<rparr>,
      \<lparr>entry_routerid = 64000, entry_metric = 16\<rparr>]"]
  by (simp add: routerid_is_valid_def metric_is_valid_def)

section \<open>Properties of routing table entries\<close>

text \<open>
  C2. An update from another next hop whose metric is not strictly smaller than the stored
  one adopts the new next hop and refreshes the timers exactly when the two metrics are
  equal, the metric is not 16 and the entry is at most half an entry timeout away from its
  update-due time; the refresh sets the update-due time to \<open>now + ENTRY_TIMEOUT_DELAY\<close>
  and clears the deletion time when the metric is below 16. In every other such case the
  entry is returned unchanged, with no reason.
\<close>

theorem update_entry_other_next_hop:
  assumes "nh \<noteq> next_hop e" and "\<not> new_metric < metric e"
  shows "update_entry now nh new_metric e =
     (if new_metric = metric e \<and> new_metric \<noteq> 16 \<and>
         time_update_due e - now \<le> ENTRY_TIMEOUT_DELAY / 2
      then (Some (Over_halfway_to_update_due (next_hop e) (metric e) nh new_metric),
            e\<lparr>next_hop := nh,
              time_update_due := now + ENTRY_TIMEOUT_DELAY,
              time_deletion_due := (if new_metric < 16 then None else time_deletion_due e)\<rparr>)
      else (None, e))"
  using assms
  by (simp add: update_entry_def update_entry_branches_def refresh_timeouts_def
      over_halfway_to_update_due_def INFINITE_METRIC_def Let_def)

theorem update_entry_other_next_hop_witness:
  "(7::int) \<noteq> next_hop \<lparr>next_hop = 3, metric = 4, time_update_due = 40, time_deletion_due = None\<rparr> \<and>
   \<not> (4::int) < metric \<lparr>next_hop = 3, metric = 4, time_update_due = 40, time_deletion_due = None\<rparr> \<and>
   update_entry 25 7 4 \<lparr>next_hop = 3, metric = 4, time_update_due = 40, time_deletion_due = None\<rparr> =
     (Some (Over_halfway_to_update_due 3 4 7 4),
      \<lparr>next_hop = 7, metric = 4, time_update_due = 55, time_deletion_due = None\<rparr>)"
  using update_entry_other_next_hop
    [of 7 "\<lparr>next_hop = 3, metric = 4, time_update_due = 40, time_deletion_due = None\<rparr>" 4 25]
  by (simp add: ENTRY_TIMEOUT_DELAY_def TIME_MULTIPLIER_def)

text \<open>
  C3. An update from the stored next hop always sets the update-due time to
  \<open>now + ENTRY_TIMEOUT_DELAY\<close> and stores the new metric, whatever it is; the
  deletion time is cleared when the resulting metric is below 16 and is left as it was
  otherwise. The next hop does not change.
\<close>

theorem update_entry_same_next_hop:
  "snd (update_entry now (next_hop e) new_metric e) =
     e\<lparr>metric := new_metric,
       time_update_due := now + ENTRY_TIMEOUT_DELAY,
       time_deletion_due := (if new_metric < 16 then None else time_deletion_due e)\<rparr>"
  by (simp add: update_entry_def update_entry_branches_def refresh_timeouts_def
      INFINITE_METRIC_def Let_def)

theorem update_entry_same_next_hop_witness:
  "snd (update_entry 100 3 16 \<lparr>next_hop = 3, metric = 4, time_update_due = 40, time_deletion_due = None\<rparr>) =
     \<lparr>next_hop = 3, metric = 16, time_update_due = 130, time_deletion_due = None\<rparr> \<and>
   snd (update_entry 100 3 5 \<lparr>next_hop = 3, metric = 16, time_update_due = 40, time_deletion_due = Some 50\<rparr>) =
     \<lparr>next_hop = 3, metric = 5, time_update_due = 130, time_deletion_due = None\<rparr> \<and>
   snd (update_entry 100 3 16 \<lparr>next_hop = 3, metric = 16, time_update_due = 40, time_deletion_due = Some 50\<rparr>) =
     \<lparr>next_hop = 3, metric = 16, time_update_due = 130, time_deletion_due = Some 50\<rparr>"
  using update_entry_same_next_hop
    [of 100 "\<lparr>next_hop = 3, metric = 4, time_update_due = 40, time_deletion_due = None\<rparr>" 16]
    update_entry_same_next_hop
    [of 100 "\<lparr>next_hop = 3, metric = 16, time_update_due = 40, time_deletion_due = Some 50\<rparr>" 5]
    update_entry_same_next_hop
    [of 100 "\<lparr>next_hop = 3, metric = 16, time_update_due = 40, time_deletion_due = Some 50\<rparr>" 16]
  by (simp add: ENTRY_TIMEOUT_DELAY_def TIME_MULTIPLIER_def)

section \<open>Adding to the routing table\<close>

lemma update_absent: "map_of al k = None \<Longrightarrow> AList.update k v al = al @ [(k, v)]"
  by (induction al) (auto split: if_splits)

text \<open>
  C7. \<^verbatim>\<open>add_to_table(dest, next_hop, m)\<close> leaves the manager as it is when \<open>dest\<close>
  is the router's own id. Otherwise, when the table has an entry for \<open>dest\<close>, that entry
  is replaced by the result of its update rule; when it has none, a new entry with the
  given next hop and metric, update-due time \<open>now + ENTRY_TIMEOUT_DELAY\<close> and no deletion
  time is added at the end exactly when \<open>m < 16\<close>, and the manager is unchanged when
  \<open>m\<close> is 16 or more.
\<close>

theorem add_to_table_cases:
  "add_to_table now dest nh m s =
     (if dest = our_routerid s then s
      else case map_of (routing_table s) dest of
             Some e \<Rightarrow>
               s\<lparr>routing_table :=
                    AList.update dest (snd (update_entry now nh m e)) (routing_table s)\<rparr>
           | None \<Rightarrow>
               if m < 16
               then s\<lparr>routing_table := routing_table s @
                         [(dest, \<lparr>next_hop = nh, metric = m,
                                  time_update_due = now + ENTRY_TIMEOUT_DELAY,
                                  time_deletion_due = None\<rparr>)]\<rparr>
               else s)"
  by (simp add: add_to_table_def new_RoutingTableEntry_def INFINITE_METRIC_def update_absent
      split: option.split)

theorem add_to_table_cases_witness:
  "add_to_table 10 1 2 5
      \<lparr>our_routerid = 1, output_routers = [(2, (3000, 1))],
        routing_table = [(2, \<lparr>next_hop = 2, metric = 1, time_update_due = 30, time_deletion_due = None\<rparr>)],
        next_periodic_update = 0, triggered_update_pending = False, next_triggered_update = 0\<rparr> = \<lparr>our_routerid = 1, output_routers = [(2, (3000, 1))],
        routing_table = [(2, \<lparr>next_hop = 2, metric = 1, time_update_due = 30, time_deletion_due = None\<rparr>)],
        next_periodic_update = 0, triggered_update_pending = False, next_triggered_update = 0\<rparr> \<and>
   add_to_table 10 7 2 16
      \<lparr>our_routerid = 1, output_routers = [(2, (3000, 1))],
        routing_table = [(2, \<lparr>next_hop = 2, metric = 1, time_update_due = 30, time_deletion_due = None\<rparr>)],
        next_periodic_update = 0, triggered_update_pending = False, next_triggered_update = 0\<rparr> = \<lparr>our_routerid = 1, output_routers = [(2, (3000, 1))],
        routing_table = [(2, \<lparr>next_hop = 2, metric = 1, time_update_due = 30, time_deletion_due = None\<rparr>)],
        next_periodic_update = 0, triggered_update_pending = False, next_triggered_update = 0\<rparr> \<and>
   add_to_table 10 7 2 3
      \<lparr>our_routerid = 1, output_routers = [(2, (3000, 1))],
        routing_table = [(2, \<lparr>next_hop = 2, metric = 1, time_update_due = 30, time_deletion_due = None\<rparr>)],
        next_periodic_update = 0, triggered_update_pending = False, next_triggered_update = 0\<rparr> = \<lparr>our_routerid = 1, output_routers = [(2, (3000, 1))],
        routing_table = [(2, \<lparr>next_hop = 2, metric = 1, time_update_due = 30, time_deletion_due = None\<rparr>), (7, \<lparr>next_hop = 2, metric = 3, time_update_due = 40, time_deletion_due = None\<rparr>)],
        next_periodic_update = 0, triggered_update_pending = False, next_triggered_update = 0\<rparr> \<and>
   add_to_table 10 2 2 1
      \<lparr>our_routerid = 1, output_routers = [(2, (3000, 1))],
        routing_table = [(2, \<lparr>next_hop = 2, metric = 1, time_update_due = 30, time_deletion_due = None\<rparr>)],
        next_periodic_update = 0, triggered_update_pending = False, next_triggered_update = 0\<rparr> = \<lparr>our_routerid = 1, output_routers = [(2, (3000, 1))],
        routing_table = [(2, \<lparr>next_hop = 2, metric = 1, time_update_due = 40, time_deletion_due = None\<rparr>)],
        next_periodic_update = 0, triggered_update_pending = False, next_triggered_update = 0\<rparr>"
  using add_to_table_cases [of 10 1 2 5 "\<lparr>our_routerid = 1, output_routers = [(2, (3000, 1))],
        routing_table = [(2, \<lparr>next_hop = 2, metric = 1, time_update_due = 30, time_deletion_due = None\<rparr>)],
        next_periodic_update = 0, triggered_update_pending = False, next_triggered_update = 0\<rparr>"]
    add_to_table_cases [of 10 7 2 16 "\<lparr>our_routerid = 1, output_routers = [(2, (3000, 1))],
        routing_table = [(2, \<lparr>next_hop = 2, metric = 1, time_update_due = 30, time_deletion_due = None\<rparr>)],
        next_periodic_update = 0, triggered_update_pending = False, next_triggered_update = 0\<rparr>"]
    add_to_table_cases [of 10 7 2 3 "\<lparr>our_routerid = 1, output_routers = [(2, (3000, 1))],
        routing_table = [(2, \<lparr>next_hop = 2, metric = 1, time_update_due = 30, time_deletion_due = None\<rparr>)],
        next_periodic_update = 0, triggered_update_pending = False, next_triggered_update = 0\<rparr>"]
    add_to_table_cases [of 10 2 2 1 "\<lparr>our_routerid = 1, output_routers = [(2, (3000, 1))],
        routing_table = [(2, \<lparr>next_hop = 2, metric = 1, time_update_due = 30, time_deletion_due = None\<rparr>)],
        next_periodic_update = 0, triggered_update_pending = False, next_triggered_update = 0\<rparr>"]
  by (simp add: update_entry_def update_entry_branches_def refresh_timeouts_def Let_def
      INFINITE_METRIC_def ENTRY_TIMEOUT_DELAY_def TIME_MULTIPLIER_def)

section \<open>The assertion of begin-deletion\<close>

lemma begin_deletion_returns:
  "should_begin_deletion now e \<Longrightarrow>
   begin_deletion now' e =
     Inr (e\<lparr>metric := 16, time_deletion_due := Some (now' + GARBAGE_COLLECTION_DELAY)\<rparr>)"
  by (simp add: should_begin_deletion_def begin_deletion_def INFINITE_METRIC_def split: if_splits)

lemma scan_table_returns: "\<exists>r. scan_table now table to_delete pending = Inr r"
proof (induction table arbitrary: to_delete pending)
  case Nil
  show ?case by simp
next
  case (Cons x table)
  obtain destination entry where x: "x = (destination, entry)" by (cases x)
  show ?case
  proof (cases "should_delete now entry")
    case True
    from Cons.IH [of "to_delete @ [destination]" True] x True show ?thesis by auto
  next
    case False
    show ?thesis
    proof (cases "should_begin_deletion now entry")
      case True
      from Cons.IH [of to_delete True] x \<open>\<not> should_delete now entry\<close> True
        begin_deletion_returns [OF True, of now]
      show ?thesis by auto
    next
      case nb: False
      from Cons.IH [of to_delete pending] x False nb show ?thesis by auto
    qed
  qed
qed

lemma to_bytes_error: "to_bytes x n = Inl e \<Longrightarrow> e = OverflowError"
  by (simp add: to_bytes_def split: if_splits)

lemma empty_rip_packet_error: "empty_rip_packet r = Inl e \<Longrightarrow> e = OverflowError"
  by (auto simp: empty_rip_packet_def Let_def split: sum.splits dest: to_bytes_error)

lemma rip_entry_error: "rip_entry d m = Inl e \<Longrightarrow> e = OverflowError"
  by (auto simp: rip_entry_def Let_def split: sum.splits dest: to_bytes_error)

lemma build_packets_loop_error:
  "build_packets_loop our peer table packets packet = Inl e \<Longrightarrow> e = OverflowError"
proof (induction table arbitrary: packets packet)
  case Nil
  then show ?case by simp
next
  case (Cons x table)
  obtain destination entry where x: "x = (destination, entry)" by (cases x)
  from Cons.prems Cons.IH show ?case
    unfolding x
    by (auto simp: Let_def split: if_splits sum.splits
        dest: empty_rip_packet_error rip_entry_error)
qed

lemma build_packets_error: "build_packets peer s = Inl e \<Longrightarrow> e = OverflowError"
  by (auto simp: build_packets_def split: sum.splits
      dest: build_packets_loop_error empty_rip_packet_error rip_entry_error)

lemma send_to_neighbours_error: "send_to_neighbours s ns = Inl e \<Longrightarrow> e = OverflowError"
proof (induction ns)
  case Nil
  then show ?case by simp
next
  case (Cons x ns)
  obtain peer port m where x: "x = (peer, port, m)" by (cases x)
  from Cons.prems Cons.IH show ?case
    unfolding x by (auto split: sum.splits dest: build_packets_error)
qed

lemma send_response_messages_error:
  "send_response_messages now u_p u_t s = Inl e \<Longrightarrow> e = OverflowError"
  by (auto simp: send_response_messages_def split: sum.splits dest: send_to_neighbours_error)

lemma send_any_updates_error:
  assumes "send_any_updates now u_p u_t s = Inl e"
  shows "e = OverflowError"
proof -
  obtain table to_delete pending
    where r: "scan_table now (routing_table s) [] (triggered_update_pending s) =
      Inr (table, to_delete, pending)"
    using scan_table_returns [of now "routing_table s" "[]" "triggered_update_pending s"]
    by (metis prod_cases3)
  from assms show ?thesis
    by (auto simp: send_any_updates_def r Let_def split: if_splits
        dest: send_response_messages_error)
qed

text \<open>
  C10. \<^verbatim>\<open>should_begin_deletion\<close> holds only of an entry whose deletion time is unset
  and \<^verbatim>\<open>should_delete\<close> only of one whose deletion time is set, so the two never hold
  of the same entry, whatever the clock readings. On an entry for which
  \<^verbatim>\<open>should_begin_deletion\<close> holds, \<^verbatim>\<open>begin_deletion\<close> passes its assertion and
  returns the entry with metric 16 and its deletion time set. Hence
  \<^verbatim>\<open>send_any_updates\<close> never raises an assertion error.
\<close>

theorem begin_deletion_assertion_holds:
  "(should_begin_deletion now e \<longrightarrow> time_deletion_due e = None) \<and>
   (should_delete now e \<longrightarrow> time_deletion_due e \<noteq> None) \<and>
   \<not> (should_begin_deletion now e \<and> should_delete now' e) \<and>
   (should_begin_deletion now e \<longrightarrow>
      begin_deletion now' e =
        Inr (e\<lparr>metric := 16, time_deletion_due := Some (now' + GARBAGE_COLLECTION_DELAY)\<rparr>)) \<and>
   (\<forall>msg. send_any_updates now u_p u_t s \<noteq> Inl (AssertionError msg))"
proof (intro conjI)
  show "should_begin_deletion now e \<longrightarrow> time_deletion_due e = None"
    by (simp add: should_begin_deletion_def deletion_process_underway_def)
  show "should_delete now e \<longrightarrow> time_deletion_due e \<noteq> None"
    by (simp add: should_delete_def deletion_process_underway_def)
  show "\<not> (should_begin_deletion now e \<and> should_delete now' e)"
    by (simp add: should_begin_deletion_def should_delete_def)
  show "should_begin_deletion now e \<longrightarrow>
      begin_deletion now' e =
        Inr (e\<lparr>metric := 16, time_deletion_due := Some (now' + GARBAGE_COLLECTION_DELAY)\<rparr>)"
    by (simp add: begin_deletion_returns)
  show "\<forall>msg. send_any_updates now u_p u_t s \<noteq> Inl (AssertionError msg)"
    using send_any_updates_error [of now u_p u_t s] by auto
qed


theorem begin_deletion_assertion_holds_witness:
  "should_begin_deletion 50 \<lparr>next_hop = 2, metric = 16, time_update_due = 100, time_deletion_due = None\<rparr> \<and>
   time_deletion_due \<lparr>next_hop = 2, metric = 16, time_update_due = 100, time_deletion_due = None\<rparr> = None \<and>
   begin_deletion 60 \<lparr>next_hop = 2, metric = 16, time_update_due = 100, time_deletion_due = None\<rparr> =
     Inr \<lparr>next_hop = 2, metric = 16, time_update_due = 100, time_deletion_due = Some 80\<rparr> \<and>
   should_delete 50 \<lparr>next_hop = 2, metric = 16, time_update_due = 100, time_deletion_due = Some 40\<rparr> \<and>
   time_deletion_due \<lparr>next_hop = 2, metric = 16, time_update_due = 100, time_deletion_due = Some 40\<rparr> \<noteq> None"
  using begin_deletion_assertion_holds [of 50 "\<lparr>next_hop = 2, metric = 16, time_update_due = 100, time_deletion_due = None\<rparr>" 60]
    begin_deletion_assertion_holds [of 50 "\<lparr>next_hop = 2, metric = 16, time_update_due = 100, time_deletion_due = Some 40\<rparr>" 60]
  by (simp add: should_begin_deletion_def should_delete_def deletion_process_underway_def
      INFINITE_METRIC_def GARBAGE_COLLECTION_DELAY_def TIME_MULTIPLIER_def)

section \<open>Invariants of the routing table\<close>

text \<open>
  A property \<open>P\<close> of the destinations and entries of the table is kept by
  \<^verbatim>\<open>add_to_table\<close> when the update rule keeps it and a new entry has it. The
  property \<open>Q\<close> is what is known of the next hops and metrics that are added.
\<close>

lemma set_update_subset: "set (AList.update k v al) \<subseteq> insert (k, v) (set al)"
  by (induction al) auto

lemma set_fold_delete: "set (fold AList.delete ks al) \<subseteq> set al"
proof (induction ks arbitrary: al)
  case Nil
  show ?case by simp
next
  case (Cons k ks)
  have "set (fold AList.delete ks (AList.delete k al)) \<subseteq> set (AList.delete k al)"
    by (rule Cons.IH)
  also have "\<dots> \<subseteq> set al" by (auto simp: AList.delete_eq)
  finally show ?case by simp
qed

lemma add_to_table_fixed:
  "our_routerid (add_to_table now d nh m s) = our_routerid s"
  "output_routers (add_to_table now d nh m s) = output_routers s"
  by (simp_all add: add_to_table_def split: option.split)

lemma add_to_table_preserves:
  assumes inv: "\<forall>(d, e) \<in> set (routing_table s). P d e"
    and upd: "\<And>e. destination \<noteq> our_routerid s \<Longrightarrow> P destination e \<Longrightarrow>
        P destination (snd (update_entry now nh m e))"
    and new: "destination \<noteq> our_routerid s \<Longrightarrow> m < INFINITE_METRIC \<Longrightarrow>
        P destination (new_RoutingTableEntry now nh m)"
  shows "\<forall>(d, e) \<in> set (routing_table (add_to_table now destination nh m s)). P d e"
proof (cases "destination = our_routerid s")
  case True
  with inv show ?thesis by (simp add: add_to_table_def)
next
  case False
  show ?thesis
  proof (cases "map_of (routing_table s) destination")
    case None
    show ?thesis
    proof (cases "m < INFINITE_METRIC")
      case True
      have "P destination (new_RoutingTableEntry now nh m)" using False True by (rule new)
      with inv set_update_subset [of destination "new_RoutingTableEntry now nh m" "routing_table s"]
      show ?thesis using False None True by (auto simp: add_to_table_def)
    next
      case nm: False
      with inv False None show ?thesis by (simp add: add_to_table_def)
    qed
  next
    case (Some e)
    then have "(destination, e) \<in> set (routing_table s)" by (rule map_of_SomeD)
    with inv have "P destination e" by auto
    with False have "P destination (snd (update_entry now nh m e))" by (rule upd)
    with inv set_update_subset [of destination "snd (update_entry now nh m e)" "routing_table s"]
    show ?thesis using False Some by (auto simp: add_to_table_def)
  qed
qed

lemma incoming_entries_fixed:
  "our_routerid (incoming_entries now nh link es s) = our_routerid s"
  "output_routers (incoming_entries now nh link es s) = output_routers s"
  by (induction es arbitrary: s) (simp_all add: add_to_table_fixed Let_def)

lemma incoming_entries_preserves:
  assumes inv: "\<forall>(d, e) \<in> set (routing_table s). P d e"
    and upd: "\<And>d m e. d \<noteq> our_routerid s \<Longrightarrow> Q m \<Longrightarrow> P d e \<Longrightarrow>
        P d (snd (update_entry now nh m e))"
    and new: "\<And>d m. d \<noteq> our_routerid s \<Longrightarrow> Q m \<Longrightarrow> m < INFINITE_METRIC \<Longrightarrow>
        P d (new_RoutingTableEntry now nh m)"
    and adv: "\<forall>e \<in> set es. Q (min (link + entry_metric e) INFINITE_METRIC)"
  shows "\<forall>(d, e) \<in> set (routing_table (incoming_entries now nh link es s)). P d e"
  using inv adv upd new
proof (induction es arbitrary: s)
  case Nil
  then show ?case by simp
next
  case (Cons x es)
  let ?m = "min (link + entry_metric x) INFINITE_METRIC"
  let ?s = "add_to_table now (entry_routerid x) nh ?m s"
  from Cons.prems(2) have q: "Q ?m" by simp
  have step: "\<forall>(d, e) \<in> set (routing_table ?s). P d e"
    using Cons.prems(1) Cons.prems(3) [OF _ q] Cons.prems(4) [OF _ q]
    by (rule add_to_table_preserves)
  have "\<forall>(d, e) \<in> set (routing_table (incoming_entries now nh link es ?s)). P d e"
  proof (rule Cons.IH [OF step])
    show "\<forall>e \<in> set es. Q (min (link + entry_metric e) INFINITE_METRIC)"
      using Cons.prems(2) by simp
  next
    fix d m e
    assume "d \<noteq> our_routerid ?s" "Q m" "P d e"
    then show "P d (snd (update_entry now nh m e))"
      using Cons.prems(3) by (simp add: add_to_table_fixed)
  next
    fix d m
    assume "d \<noteq> our_routerid ?s" "Q m" "m < INFINITE_METRIC"
    then show "P d (new_RoutingTableEntry now nh m)"
      using Cons.prems(4) by (simp add: add_to_table_fixed)
  qed
  then show ?case by (simp add: Let_def)
qed

lemma decoded_metrics_valid:
  assumes "new_RipPacket message = Inr rip_packet"
  shows "\<forall>e \<in> set (entries rip_packet). metric_is_valid (entry_metric e)"
proof
  fix e
  assume e: "e \<in> set (entries rip_packet)"
  from assms have "entries rip_packet =
      RipPacket_entries message (py_range 4 (length message) 20)"
    by (cases "validate_rip_packet message") (auto simp: new_RipPacket_def)
  with e have "e \<in> entry_fields ` {c. entry_well_formed c}"
    unfolding RipPacket_entries_filter by auto
  then obtain c where c: "entry_well_formed c" and ec: "e = entry_fields c" by blast
  from c have "1 \<le> from_bytes (take 4 (drop 16 c)) \<and> from_bytes (take 4 (drop 16 c)) \<le> 16"
    unfolding entry_well_formed_def by blast
  then show "metric_is_valid (entry_metric e)"
    by (simp add: ec entry_fields_def metric_is_valid_def)
qed

lemma incoming_message_fixed:
  "our_routerid (incoming_message now message s) = our_routerid s \<and>
   output_routers (incoming_message now message s) = output_routers s"
proof (cases "new_RipPacket message")
  case (Inl err)
  then show ?thesis by (simp add: incoming_message_def)
next
  case (Inr rip_packet)
  show ?thesis
  proof (cases "map_of (output_routers s) (routerid rip_packet)")
    case None
    with Inr show ?thesis by (simp add: incoming_message_def)
  next
    case (Some pm)
    obtain port metric_to_next_hop where pm: "pm = (port, metric_to_next_hop)" by (cases pm)
    show ?thesis
      using Inr Some pm
      by (simp add: incoming_message_def Let_def incoming_entries_fixed add_to_table_fixed)
  qed
qed

lemma incoming_message_preserves:
  assumes inv: "\<forall>(d, e) \<in> set (routing_table s). P d e"
    and upd: "\<And>d nh m e. d \<noteq> our_routerid s \<Longrightarrow> Q nh m \<Longrightarrow> P d e \<Longrightarrow>
        P d (snd (update_entry now nh m e))"
    and new: "\<And>d nh m. d \<noteq> our_routerid s \<Longrightarrow> Q nh m \<Longrightarrow> m < INFINITE_METRIC \<Longrightarrow>
        P d (new_RoutingTableEntry now nh m)"
    and link: "\<And>nh port link. map_of (output_routers s) nh = Some (port, link) \<Longrightarrow>
        Q nh link \<and>
        (\<forall>adv. metric_is_valid adv \<longrightarrow> Q nh (min (link + adv) INFINITE_METRIC))"
  shows "\<forall>(d, e) \<in> set (routing_table (incoming_message now message s)). P d e"
proof (cases "new_RipPacket message")
  case (Inl err)
  with inv show ?thesis by (simp add: incoming_message_def)
next
  case (Inr rip_packet)
  let ?nh = "routerid rip_packet"
  show ?thesis
  proof (cases "map_of (output_routers s) ?nh")
    case None
    with inv Inr show ?thesis by (simp add: incoming_message_def)
  next
    case (Some pm)
    obtain port metric_to_next_hop where pm: "pm = (port, metric_to_next_hop)" by (cases pm)
    from Some pm have "map_of (output_routers s) ?nh = Some (port, metric_to_next_hop)"
      by simp
    then have q: "Q ?nh metric_to_next_hop"
      and clamp: "\<forall>adv. metric_is_valid adv \<longrightarrow>
        Q ?nh (min (metric_to_next_hop + adv) INFINITE_METRIC)"
      using link by blast+
    let ?s = "add_to_table now ?nh ?nh metric_to_next_hop s"
    have sender: "\<forall>(d, e) \<in> set (routing_table ?s). P d e"
      using inv upd [OF _ q] new [OF _ q] by (rule add_to_table_preserves)
    have adv: "\<forall>e \<in> set (entries rip_packet).
        Q ?nh (min (metric_to_next_hop + entry_metric e) INFINITE_METRIC)"
      using decoded_metrics_valid [OF Inr] clamp by blast
    have "\<forall>(d, e) \<in> set (routing_table
        (incoming_entries now ?nh metric_to_next_hop (entries rip_packet) ?s)). P d e"
    proof (rule incoming_entries_preserves [where Q = "Q ?nh", OF sender _ _ adv])
      fix d m e
      assume "d \<noteq> our_routerid ?s" "Q ?nh m" "P d e"
      then show "P d (snd (update_entry now ?nh m e))"
        using upd by (simp add: add_to_table_fixed)
    next
      fix d m
      assume "d \<noteq> our_routerid ?s" "Q ?nh m" "m < INFINITE_METRIC"
      then show "P d (new_RoutingTableEntry now ?nh m)"
        using new by (simp add: add_to_table_fixed)
    qed
    then show ?thesis using Inr Some pm by (simp add: incoming_message_def Let_def)
  qed
qed

lemma scan_table_preserves:
  assumes "scan_table now table to_delete pending = Inr (table', result)"
    and "\<forall>(d, e) \<in> set table. P d e"
    and "\<And>d e. P d e \<Longrightarrow> time_deletion_due e = None \<Longrightarrow>
        P d (e\<lparr>metric := 16, time_deletion_due := Some (now + GARBAGE_COLLECTION_DELAY)\<rparr>)"
  shows "\<forall>(d, e) \<in> set table'. P d e"
  using assms(1,2)
proof (induction table arbitrary: to_delete pending table' result)
  case Nil
  then show ?case by simp
next
  case (Cons x table)
  obtain destination entry where x: "x = (destination, entry)" by (cases x)
  from Cons.prems(2) x have px: "P destination entry" and rest: "\<forall>(d, e) \<in> set table. P d e"
    by simp_all
  show ?case
  proof (cases "should_delete now entry")
    case True
    with Cons.prems(1) x obtain t r where
      "scan_table now table (to_delete @ [destination]) True = Inr (t, r)"
      and t: "table' = (destination, entry) # t"
      by (auto split: sum.splits)
    from Cons.IH [OF this(1) rest] px t show ?thesis by simp
  next
    case False
    show ?thesis
    proof (cases "should_begin_deletion now entry")
      case True
      then have none: "time_deletion_due entry = None"
        by (simp add: should_begin_deletion_def deletion_process_underway_def split: if_splits)
      let ?e = "entry\<lparr>metric := 16, time_deletion_due := Some (now + GARBAGE_COLLECTION_DELAY)\<rparr>"
      have b: "begin_deletion now entry = Inr ?e" using True by (rule begin_deletion_returns)
      with Cons.prems(1) x False True obtain t r where
        "scan_table now table to_delete True = Inr (t, r)"
        and t: "table' = (destination, ?e) # t"
        by (auto split: sum.splits)
      from Cons.IH [OF this(1) rest] assms(3) [OF px none] t show ?thesis by simp
    next
      case nb: False
      with Cons.prems(1) x False obtain t r where
        "scan_table now table to_delete pending = Inr (t, r)"
        and t: "table' = (destination, entry) # t"
        by (auto split: sum.splits)
      from Cons.IH [OF this(1) rest] px t show ?thesis by simp
    qed
  qed
qed

lemma send_response_messages_fixed:
  assumes "send_response_messages now u_p u_t s = Inr (s', sent)"
  shows "routing_table s' = routing_table s" "our_routerid s' = our_routerid s"
    "output_routers s' = output_routers s"
proof -
  from assms obtain out where "send_to_neighbours s (output_routers s) = Inr out"
    by (cases "send_to_neighbours s (output_routers s)")
       (simp_all add: send_response_messages_def)
  with assms have "s' = s\<lparr>next_periodic_update := now + PERIODIC_UPDATE_DELAY + u_p,
      triggered_update_pending := False, next_triggered_update := now + u_t\<rparr>"
    by (simp add: send_response_messages_def)
  then show "routing_table s' = routing_table s" "our_routerid s' = our_routerid s"
    "output_routers s' = output_routers s"
    by simp_all
qed

lemma send_any_updates_cases:
  assumes run: "send_any_updates now u_p u_t s = Inr (s', sent)"
  obtains table to_delete pending where
    "scan_table now (routing_table s) [] (triggered_update_pending s) =
       Inr (table, to_delete, pending)"
    and "routing_table s' = fold AList.delete to_delete table"
    and "our_routerid s' = our_routerid s"
    and "output_routers s' = output_routers s"
proof -
  from run obtain r where
    scan: "scan_table now (routing_table s) [] (triggered_update_pending s) = Inr r"
    by (cases "scan_table now (routing_table s) [] (triggered_update_pending s)")
       (simp_all add: send_any_updates_def)
  obtain table to_delete pending where r: "r = (table, to_delete, pending)" by (cases r)
  define s1 where "s1 = s\<lparr>routing_table := fold AList.delete to_delete table,
    triggered_update_pending := pending\<rparr>"
  have "send_response_messages now u_p u_t s1 = Inr (s', sent) \<or> s' = s1"
    using run unfolding send_any_updates_def scan r s1_def Let_def
    by (simp split: if_splits)
  then have "routing_table s' = routing_table s1 \<and> our_routerid s' = our_routerid s1 \<and>
      output_routers s' = output_routers s1"
    using send_response_messages_fixed [of now u_p u_t s1 s' sent] by blast
  then have "routing_table s' = fold AList.delete to_delete table"
    "our_routerid s' = our_routerid s" "output_routers s' = output_routers s"
    by (simp_all add: s1_def)
  with scan r that show ?thesis by blast
qed

lemma send_any_updates_fixed:
  assumes "send_any_updates now u_p u_t s = Inr (s', sent)"
  shows "our_routerid s' = our_routerid s" "output_routers s' = output_routers s"
  using send_any_updates_cases [OF assms] by blast+

lemma send_any_updates_preserves:
  assumes run: "send_any_updates now u_p u_t s = Inr (s', sent)"
    and inv: "\<forall>(d, e) \<in> set (routing_table s). P d e"
    and del: "\<And>d e. P d e \<Longrightarrow> time_deletion_due e = None \<Longrightarrow>
        P d (e\<lparr>metric := 16, time_deletion_due := Some (now + GARBAGE_COLLECTION_DELAY)\<rparr>)"
  shows "\<forall>(d, e) \<in> set (routing_table s'). P d e"
proof -
  from run obtain table to_delete pending where
    scan: "scan_table now (routing_table s) [] (triggered_update_pending s) =
      Inr (table, to_delete, pending)"
    and tab: "routing_table s' = fold AList.delete to_delete table"
    by (rule send_any_updates_cases)
  have t: "\<forall>(d, e) \<in> set table. P d e"
    using scan inv del by (rule scan_table_preserves)
  with tab set_fold_delete [of to_delete table] show ?thesis by auto
qed

lemma reachable_fixed:
  assumes "reachable config s"
  shows "our_routerid s = router_id config \<and> output_routers s = outputs config"
  using assms
  by (induction rule: reachable.induct)
     (simp_all add: new_RipManager_def incoming_message_fixed send_any_updates_fixed)

text \<open>
  C9. In every state that the daemon reaches, the routing table has no entry whose
  destination is the router's own id, whatever datagrams were received.
\<close>

theorem own_id_never_stored:
  assumes "reachable config s"
  shows "our_routerid s \<notin> fst ` set (routing_table s)"
proof -
  have "\<forall>(d, e) \<in> set (routing_table s). d \<noteq> router_id config"
    using assms
  proof (induction rule: reachable.induct)
    case (start now)
    show ?case by (simp add: new_RipManager_def)
  next
    case (received s now message)
    from received.hyps have own: "our_routerid s = router_id config"
      by (simp add: reachable_fixed)
    show ?case
      by (rule incoming_message_preserves [where Q = "\<lambda>nh m. True", OF received.IH])
         (simp_all add: own)
  next
    case (updated s now u_periodic u_triggered s' sent)
    show ?case
      by (rule send_any_updates_preserves [OF updated.hyps(2) updated.IH])
  qed
  moreover have "our_routerid s = router_id config"
    using assms by (simp add: reachable_fixed)
  ultimately show ?thesis by auto
qed

lemma update_entry_metric:
  "metric (snd (update_entry now nh m e)) = metric e \<or>
   metric (snd (update_entry now nh m e)) = m"
  by (simp add: update_entry_def update_entry_branches_def refresh_timeouts_def Let_def)

lemma clamp_valid:
  assumes "metric_is_valid link" "metric_is_valid adv"
  shows "metric_is_valid (min (link + adv) INFINITE_METRIC)"
  using assms by (simp add: metric_is_valid_def INFINITE_METRIC_def)

lemma link_metric_valid:
  assumes "link_metrics_valid config" "(r, port, link) \<in> set (outputs config)"
  shows "metric_is_valid link"
  using assms by (auto simp: link_metrics_valid_def list_all_iff)

text \<open>
  What \<^verbatim>\<open>incoming_message\<close> does with a datagram that decodes and comes from a
  configured neighbour: the sender is added with the link metric, then every advertisement
  with \<open>min (link + advertised) 16\<close>. So the metric of an entry afterwards is the one
  the destination had before, the link metric (for the sender), or that minimum for an
  advertisement of the destination.
\<close>

lemma incoming_entries_fold:
  "incoming_entries now nh link es s =
     fold (\<lambda>a. add_to_table now (entry_routerid a) nh
                  (min (link + entry_metric a) INFINITE_METRIC)) es s"
  by (induction es arbitrary: s) (simp_all add: Let_def)

lemma add_to_table_metric:
  assumes inv: "\<forall>(d, e) \<in> set (routing_table s). M d (metric e)"
    and m: "destination \<noteq> our_routerid s \<Longrightarrow> M destination m"
  shows "\<forall>(d, e) \<in> set (routing_table (add_to_table now destination nh m s)). M d (metric e)"
proof (rule add_to_table_preserves
    [where P = "\<lambda>d (e :: RoutingTableEntry). M d (metric e)", OF inv])
  fix e :: RoutingTableEntry
  assume "destination \<noteq> our_routerid s" "M destination (metric e)"
  then show "M destination (metric (snd (update_entry now nh m e)))"
    using update_entry_metric [of now nh m e] m by auto
next
  assume "destination \<noteq> our_routerid s"
  then show "M destination (metric (new_RoutingTableEntry now nh m))"
    using m by (simp add: new_RoutingTableEntry_def)
qed

lemma incoming_entries_metric:
  assumes "\<forall>(d, e) \<in> set (routing_table s). M d (metric e)"
    and "\<forall>a \<in> set es. M (entry_routerid a) (min (link + entry_metric a) INFINITE_METRIC)"
  shows "\<forall>(d, e) \<in> set (routing_table (incoming_entries now nh link es s)). M d (metric e)"
  using assms
proof (induction es arbitrary: s)
  case Nil
  then show ?case by simp
next
  case (Cons a es)
  let ?s = "add_to_table now (entry_routerid a) nh
    (min (link + entry_metric a) INFINITE_METRIC) s"
  have "\<forall>(d, e) \<in> set (routing_table ?s). M d (metric e)"
    using Cons.prems(1) by (rule add_to_table_metric) (use Cons.prems(2) in simp)
  moreover have "\<forall>a \<in> set es. M (entry_routerid a) (min (link + entry_metric a) INFINITE_METRIC)"
    using Cons.prems(2) by simp
  ultimately have
    "\<forall>(d, e) \<in> set (routing_table (incoming_entries now nh link es ?s)). M d (metric e)"
    by (rule Cons.IH)
  then show ?case by (simp add: Let_def)
qed

lemma incoming_message_accepted:
  assumes "new_RipPacket message = Inr pkt"
    and "map_of (output_routers s) (routerid pkt) = Some (port, link)"
  shows "incoming_message now message s =
      incoming_entries now (routerid pkt) link (entries pkt)
        (add_to_table now (routerid pkt) (routerid pkt) link s)"
  using assms by (simp add: incoming_message_def Let_def)

lemma incoming_message_metrics:
  assumes pkt: "new_RipPacket message = Inr pkt"
    and link: "map_of (output_routers s) (routerid pkt) = Some (port, link)"
  shows "\<forall>(d, e') \<in> set (routing_table (incoming_message now message s)).
      (\<exists>e. (d, e) \<in> set (routing_table s) \<and> metric e' = metric e) \<or>
      (d = routerid pkt \<and> metric e' = link) \<or>
      (\<exists>a \<in> set (entries pkt). entry_routerid a = d \<and>
         metric e' = min (link + entry_metric a) INFINITE_METRIC)"
proof -
  let ?M = "\<lambda>d k. (\<exists>e. (d, e) \<in> set (routing_table s) \<and> k = metric e) \<or>
      (d = routerid pkt \<and> k = link) \<or>
      (\<exists>a \<in> set (entries pkt). entry_routerid a = d \<and>
         k = min (link + entry_metric a) INFINITE_METRIC)"
  have start: "\<forall>(d, e) \<in> set (routing_table s). ?M d (metric e)" by blast
  have sender: "\<forall>(d, e) \<in> set (routing_table
      (add_to_table now (routerid pkt) (routerid pkt) link s)). ?M d (metric e)"
    using start by (rule add_to_table_metric) simp
  have adv: "\<forall>a \<in> set (entries pkt).
      ?M (entry_routerid a) (min (link + entry_metric a) INFINITE_METRIC)"
    by blast
  have "\<forall>(d, e) \<in> set (routing_table
      (incoming_entries now (routerid pkt) link (entries pkt)
        (add_to_table now (routerid pkt) (routerid pkt) link s))). ?M d (metric e)"
    using sender adv by (rule incoming_entries_metric)
  then show ?thesis
    unfolding incoming_message_accepted [OF pkt link] by simp
qed

text \<open>
  C8. For a configuration whose link metrics lie in 1..16, every entry of the routing table
  of every state that the daemon reaches has a metric between 1 and 16. In such a state,
  \<^verbatim>\<open>incoming_message\<close> on a datagram from a configured neighbour adds the sender with
  the link metric and every advertisement with \<open>min (link + advertised) 16\<close>, and the
  metric of every entry afterwards is the one its destination had before, the link metric
  or that clamped sum for an advertisement of the destination. \<^verbatim>\<open>begin_deletion\<close>
  sets the metric to 16.
\<close>

theorem metrics_in_range:
  assumes "link_metrics_valid config" and "reachable config s"
  shows "(\<forall>(d, e) \<in> set (routing_table s). 1 \<le> metric e \<and> metric e \<le> 16) \<and>
    (\<forall>now message pkt port link.
       new_RipPacket message = Inr pkt \<and>
       map_of (output_routers s) (routerid pkt) = Some (port, link) \<longrightarrow>
       incoming_message now message s =
         fold (\<lambda>a. add_to_table now (entry_routerid a) (routerid pkt)
                      (min (link + entry_metric a) INFINITE_METRIC))
           (entries pkt) (add_to_table now (routerid pkt) (routerid pkt) link s) \<and>
       (\<forall>(d, e') \<in> set (routing_table (incoming_message now message s)).
          (\<exists>e. (d, e) \<in> set (routing_table s) \<and> metric e' = metric e) \<or>
          (d = routerid pkt \<and> metric e' = link) \<or>
          (\<exists>a \<in> set (entries pkt). entry_routerid a = d \<and>
             metric e' = min (link + entry_metric a) INFINITE_METRIC))) \<and>
    (\<forall>now e e'. begin_deletion now e = Inr e' \<longrightarrow> metric e' = 16)"
proof (intro conjI)
  have "\<forall>(d, e) \<in> set (routing_table s). metric_is_valid (metric e)"
    using assms(2)
  proof (induction rule: reachable.induct)
    case (start now)
    show ?case by (simp add: new_RipManager_def)
  next
    case (received s now message)
    from received.hyps have out: "output_routers s = outputs config"
      by (simp add: reachable_fixed)
    show ?case
    proof (rule incoming_message_preserves [where Q = "\<lambda>nh. metric_is_valid", OF received.IH])
      fix d nh m and e :: RoutingTableEntry
      assume "metric_is_valid m" "metric_is_valid (metric e)"
      then show "metric_is_valid (metric (snd (update_entry now nh m e)))"
        using update_entry_metric [of now nh m e] by auto
    next
      fix d nh m
      assume "metric_is_valid m"
      then show "metric_is_valid (metric (new_RoutingTableEntry now nh m))"
        by (simp add: new_RoutingTableEntry_def)
    next
      fix nh port link
      assume "map_of (output_routers s) nh = Some (port, link)"
      then have "(nh, port, link) \<in> set (output_routers s)" by (rule map_of_SomeD)
      then have "metric_is_valid link"
        using assms(1) by (simp add: out link_metric_valid)
      then show "metric_is_valid link \<and>
          (\<forall>adv. metric_is_valid adv \<longrightarrow> metric_is_valid (min (link + adv) INFINITE_METRIC))"
        by (simp add: clamp_valid)
    qed
  next
    case (updated s now u_periodic u_triggered s' sent)
    show ?case
      by (rule send_any_updates_preserves [OF updated.hyps(2) updated.IH])
         (simp add: metric_is_valid_def)
  qed
  then show "\<forall>(d, e) \<in> set (routing_table s). 1 \<le> metric e \<and> metric e \<le> 16"
    by (simp add: metric_is_valid_def)
  show "\<forall>now message pkt port link.
       new_RipPacket message = Inr pkt \<and>
       map_of (output_routers s) (routerid pkt) = Some (port, link) \<longrightarrow>
       incoming_message now message s =
         fold (\<lambda>a. add_to_table now (entry_routerid a) (routerid pkt)
                      (min (link + entry_metric a) INFINITE_METRIC))
           (entries pkt) (add_to_table now (routerid pkt) (routerid pkt) link s) \<and>
       (\<forall>(d, e') \<in> set (routing_table (incoming_message now message s)).
          (\<exists>e. (d, e) \<in> set (routing_table s) \<and> metric e' = metric e) \<or>
          (d = routerid pkt \<and> metric e' = link) \<or>
          (\<exists>a \<in> set (entries pkt). entry_routerid a = d \<and>
             metric e' = min (link + entry_metric a) INFINITE_METRIC))"
  proof (intro allI impI, elim conjE, intro conjI)
    fix now message pkt port link
    assume pkt: "new_RipPacket message = Inr pkt"
      and link: "map_of (output_routers s) (routerid pkt) = Some (port, link)"
    show "incoming_message now message s =
         fold (\<lambda>a. add_to_table now (entry_routerid a) (routerid pkt)
                      (min (link + entry_metric a) INFINITE_METRIC))
           (entries pkt) (add_to_table now (routerid pkt) (routerid pkt) link s)"
      by (simp only: incoming_message_accepted [OF pkt link] incoming_entries_fold)
    show "\<forall>(d, e') \<in> set (routing_table (incoming_message now message s)).
          (\<exists>e. (d, e) \<in> set (routing_table s) \<and> metric e' = metric e) \<or>
          (d = routerid pkt \<and> metric e' = link) \<or>
          (\<exists>a \<in> set (entries pkt). entry_routerid a = d \<and>
             metric e' = min (link + entry_metric a) INFINITE_METRIC)"
      using pkt link by (rule incoming_message_metrics)
  qed
  show "\<forall>now e e'. begin_deletion now e = Inr e' \<longrightarrow> metric e' = 16"
    by (auto simp: begin_deletion_def INFINITE_METRIC_def split: if_splits)
qed


text \<open>
  What the proof of the next invariant carries along: a metric is at most 16, and the next
  hop of an entry is a neighbour whose link metric is below 16, so that the keepalive from
  that neighbour cannot store a metric above 16.
\<close>

lemma update_entry_keeps_deletion_metric:
  assumes e: "metric e \<le> 16" "time_deletion_due e \<noteq> None \<longrightarrow> metric e = 16"
      "\<exists>port link. map_of outs (next_hop e) = Some (port, link) \<and> link < 16"
    and q: "\<exists>port link. map_of outs nh = Some (port, link) \<and>
      (m = link \<or> m \<le> 16 \<and> (m < 16 \<longrightarrow> link < 16))"
  shows "metric (snd (update_entry now nh m e)) \<le> 16 \<and>
    (time_deletion_due (snd (update_entry now nh m e)) \<noteq> None \<longrightarrow>
       metric (snd (update_entry now nh m e)) = 16) \<and>
    (\<exists>port link. map_of outs (next_hop (snd (update_entry now nh m e))) = Some (port, link) \<and>
       link < 16)"
proof -
  from q obtain port link where l: "map_of outs nh = Some (port, link)"
    and m: "m = link \<or> m \<le> 16 \<and> (m < 16 \<longrightarrow> link < 16)" by blast
  show ?thesis
  proof (cases "nh = next_hop e")
    case True
    with e(3) l have "link < 16" by auto
    with m have "m \<le> 16" by auto
    with True e show ?thesis
      by (simp add: update_entry_def update_entry_branches_def refresh_timeouts_def Let_def
          INFINITE_METRIC_def)
  next
    case False
    show ?thesis
    proof (cases "m < metric e \<or> (m \<noteq> INFINITE_METRIC \<and> m = metric e \<and>
        over_halfway_to_update_due now e)")
      case True
      with e(1) have m16: "m < 16" by (auto simp: INFINITE_METRIC_def)
      with m have "link < 16" by auto
      with l have "\<exists>port link. map_of outs nh = Some (port, link) \<and> link < 16" by blast
      with True False m16 show ?thesis
        by (auto simp: update_entry_def update_entry_branches_def refresh_timeouts_def Let_def
            INFINITE_METRIC_def)
    next
      case no: False
      with False e show ?thesis
        by (auto simp: update_entry_def update_entry_branches_def)
    qed
  qed
qed

text \<open>
  C4. In every state that the daemon reaches, an entry whose deletion time is set has
  metric 16. \<^verbatim>\<open>begin_deletion\<close>, on an entry whose deletion is not underway, sets the
  metric to 16 and the deletion time to \<open>now + GARBAGE_COLLECTION_DELAY\<close>; and an update
  that refreshes the timers and leaves a metric below 16 clears the deletion time.
\<close>

theorem deletion_due_implies_infinite_metric:
  assumes "reachable config s"
  shows "(\<forall>(d, e) \<in> set (routing_table s). time_deletion_due e \<noteq> None \<longrightarrow> metric e = 16) \<and>
    (\<forall>now e. time_deletion_due e = None \<longrightarrow>
       begin_deletion now e =
         Inr (e\<lparr>metric := 16, time_deletion_due := Some (now + GARBAGE_COLLECTION_DELAY)\<rparr>)) \<and>
    (\<forall>now nh m e r e'. update_entry_branches now nh m e = (r, True, e') \<and> metric e' < 16 \<longrightarrow>
       time_deletion_due (snd (update_entry now nh m e)) = None)"
proof (intro conjI)
  let ?outs = "outputs config"
  let ?P = "\<lambda>(d :: int) e. metric e \<le> 16 \<and> (time_deletion_due e \<noteq> None \<longrightarrow> metric e = 16) \<and>
    (\<exists>port link. map_of ?outs (next_hop e) = Some (port, link) \<and> link < 16)"
  let ?Q = "\<lambda>nh m. \<exists>port link. map_of ?outs nh = Some (port, link) \<and>
    (m = link \<or> m \<le> 16 \<and> (m < 16 \<longrightarrow> link < 16))"
  have "\<forall>(d, e) \<in> set (routing_table s). ?P d e"
    using assms
  proof (induction rule: reachable.induct)
    case (start now)
    show ?case by (simp add: new_RipManager_def)
  next
    case (received s now message)
    from received.hyps have out: "output_routers s = outputs config"
      by (simp add: reachable_fixed)
    show ?case
    proof (rule incoming_message_preserves [where P = ?P and Q = ?Q, OF received.IH])
      fix d nh m and e :: RoutingTableEntry
      assume "?Q nh m" "?P d e"
      then show "?P d (snd (update_entry now nh m e))"
        using update_entry_keeps_deletion_metric [of e ?outs nh m now] by blast
    next
      fix d nh m
      assume "?Q nh m" "m < INFINITE_METRIC"
      then show "?P d (new_RoutingTableEntry now nh m)"
        by (auto simp: new_RoutingTableEntry_def INFINITE_METRIC_def)
    next
      fix nh port link
      assume "map_of (output_routers s) nh = Some (port, link)"
      then have "map_of ?outs nh = Some (port, link)" by (simp add: out)
      then show "?Q nh link \<and>
          (\<forall>adv. metric_is_valid adv \<longrightarrow> ?Q nh (min (link + adv) INFINITE_METRIC))"
        by (auto simp: metric_is_valid_def INFINITE_METRIC_def)
    qed
  next
    case (updated s now u_periodic u_triggered s' sent)
    show ?case
      by (rule send_any_updates_preserves [where P = ?P, OF updated.hyps(2) updated.IH]) simp
  qed
  then show "\<forall>(d, e) \<in> set (routing_table s). time_deletion_due e \<noteq> None \<longrightarrow> metric e = 16"
    by fastforce
  show "\<forall>now e. time_deletion_due e = None \<longrightarrow>
       begin_deletion now e =
         Inr (e\<lparr>metric := 16, time_deletion_due := Some (now + GARBAGE_COLLECTION_DELAY)\<rparr>)"
    by (simp add: begin_deletion_def deletion_process_underway_def INFINITE_METRIC_def)
  show "\<forall>now nh m e r e'. update_entry_branches now nh m e = (r, True, e') \<and> metric e' < 16 \<longrightarrow>
       time_deletion_due (snd (update_entry now nh m e)) = None"
    by (simp add: update_entry_def refresh_timeouts_def Let_def INFINITE_METRIC_def)
qed

subsection \<open>A run of the daemon\<close>

text \<open>
  Router 1 with the single neighbour 2 receives, at time 1, a datagram from router 2 that
  advertises router 1 itself and router 5; at time 100 both routes have timed out and
  \<^verbatim>\<open>send_any_updates\<close> begins their deletion and sends one datagram to router 2.
\<close>

lemma example_message:
  "incoming_message 1
     ([2, 2, 0, 2] @ [0, 2, 0, 0, 0, 0, 0, 1, 0, 0, 0, 0, 0, 0, 0, 0, 0, 0, 0, 1]
        @ [0, 2, 0, 0, 0, 0, 0, 5, 0, 0, 0, 0, 0, 0, 0, 0, 0, 0, 0, 1])
     (new_RipManager 0 \<lparr>router_id = 1, input_ports = [2000], outputs = [(2, (3000, 1))]\<rparr>) =
   \<lparr>our_routerid = 1, output_routers = [(2, (3000, 1))],
    routing_table =
      [(2, \<lparr>next_hop = 2, metric = 1, time_update_due = 31, time_deletion_due = None\<rparr>),
       (5, \<lparr>next_hop = 2, metric = 2, time_update_due = 31, time_deletion_due = None\<rparr>)],
    next_periodic_update = 0, triggered_update_pending = False, next_triggered_update = 0\<rparr>"
  by (simp add: incoming_message_def new_RipPacket_def validate_rip_packet_def
      routerid_is_valid_def metric_is_valid_def py_range.simps new_RipEntry_def
      validate_rip_entry_def slice_def from_bytes_def new_RipManager_def add_to_table_def
      new_RoutingTableEntry_def INFINITE_METRIC_def ENTRY_TIMEOUT_DELAY_def TIME_MULTIPLIER_def
      Let_def)


lemma be_bytes_numeral:
  "be_bytes (numeral k) x = be_bytes (pred_numeral k) (x div 256) @ [word_of_int (x mod 256)]"
  by (simp add: numeral_eq_Suc)

lemma replicate_pred_numeral:
  "replicate (numeral k) x = x # replicate (pred_numeral k) x"
  by (simp add: numeral_eq_Suc)

lemma example_update:
  "send_any_updates 100 0 (1 / 2)
     \<lparr>our_routerid = 1, output_routers = [(2, (3000, 1))],
      routing_table =
        [(2, \<lparr>next_hop = 2, metric = 1, time_update_due = 31, time_deletion_due = None\<rparr>),
         (5, \<lparr>next_hop = 2, metric = 2, time_update_due = 31, time_deletion_due = None\<rparr>)],
      next_periodic_update = 0, triggered_update_pending = False, next_triggered_update = 0\<rparr> =
   Inr (\<lparr>our_routerid = 1, output_routers = [(2, (3000, 1))],
         routing_table =
           [(2, \<lparr>next_hop = 2, metric = 16, time_update_due = 31, time_deletion_due = Some 120\<rparr>),
            (5, \<lparr>next_hop = 2, metric = 16, time_update_due = 31, time_deletion_due = Some 120\<rparr>)],
         next_periodic_update = 105, triggered_update_pending = False,
         next_triggered_update = 201 / 2\<rparr>,
        [([2, 2, 0, 1,
           0, 2, 0, 0, 0, 0, 0, 2, 0, 0, 0, 0, 0, 0, 0, 0, 0, 0, 0, 16,
           0, 2, 0, 0, 0, 0, 0, 2, 0, 0, 0, 0, 0, 0, 0, 0, 0, 0, 0, 16,
           0, 2, 0, 0, 0, 0, 0, 5, 0, 0, 0, 0, 0, 0, 0, 0, 0, 0, 0, 16], 3000)])"
  by (simp add: send_any_updates_def should_delete_def should_begin_deletion_def
      begin_deletion_def deletion_process_underway_def send_response_messages_def
      build_packets_def POISONED_REVERSE_def rip_entry_bytes entry_bytes_def
      empty_rip_packet_valid routerid_is_valid_def be_bytes_numeral replicate_pred_numeral
      INFINITE_METRIC_def GARBAGE_COLLECTION_DELAY_def PERIODIC_UPDATE_DELAY_def
      TIME_MULTIPLIER_def Let_def)

text \<open>The three invariants at the states of this run.\<close>

theorem own_id_never_stored_witness:
  "reachable \<lparr>router_id = 1, input_ports = [2000], outputs = [(2, (3000, 1))]\<rparr>
     \<lparr>our_routerid = 1, output_routers = [(2, (3000, 1))],
       routing_table =
         [(2, \<lparr>next_hop = 2, metric = 1, time_update_due = 31, time_deletion_due = None\<rparr>),
          (5, \<lparr>next_hop = 2, metric = 2, time_update_due = 31, time_deletion_due = None\<rparr>)],
       next_periodic_update = 0, triggered_update_pending = False,
       next_triggered_update = 0\<rparr> \<and>
   our_routerid
     \<lparr>our_routerid = 1, output_routers = [(2, (3000, 1))],
       routing_table =
         [(2, \<lparr>next_hop = 2, metric = 1, time_update_due = 31, time_deletion_due = None\<rparr>),
          (5, \<lparr>next_hop = 2, metric = 2, time_update_due = 31, time_deletion_due = None\<rparr>)],
       next_periodic_update = 0, triggered_update_pending = False,
       next_triggered_update = 0\<rparr>
   \<notin> fst ` set (routing_table
     \<lparr>our_routerid = 1, output_routers = [(2, (3000, 1))],
       routing_table =
         [(2, \<lparr>next_hop = 2, metric = 1, time_update_due = 31, time_deletion_due = None\<rparr>),
          (5, \<lparr>next_hop = 2, metric = 2, time_update_due = 31, time_deletion_due = None\<rparr>)],
       next_periodic_update = 0, triggered_update_pending = False,
       next_triggered_update = 0\<rparr>)"
proof -
  have "reachable \<lparr>router_id = 1, input_ports = [2000], outputs = [(2, (3000, 1))]\<rparr>
      (incoming_message 1
        ([2, 2, 0, 2] @ [0, 2, 0, 0, 0, 0, 0, 1, 0, 0, 0, 0, 0, 0, 0, 0, 0, 0, 0, 1]
           @ [0, 2, 0, 0, 0, 0, 0, 5, 0, 0, 0, 0, 0, 0, 0, 0, 0, 0, 0, 1])
        (new_RipManager 0 \<lparr>router_id = 1, input_ports = [2000], outputs = [(2, (3000, 1))]\<rparr>))"
    by (rule reachable.received [OF reachable.start])
  then have r1: "reachable \<lparr>router_id = 1, input_ports = [2000], outputs = [(2, (3000, 1))]\<rparr>
      \<lparr>our_routerid = 1, output_routers = [(2, (3000, 1))],
       routing_table =
         [(2, \<lparr>next_hop = 2, metric = 1, time_update_due = 31, time_deletion_due = None\<rparr>),
          (5, \<lparr>next_hop = 2, metric = 2, time_update_due = 31, time_deletion_due = None\<rparr>)],
       next_periodic_update = 0, triggered_update_pending = False,
       next_triggered_update = 0\<rparr>"
    by (simp only: example_message)
  from own_id_never_stored [OF r1] r1 show ?thesis by simp
qed

theorem metrics_in_range_witness:
  "link_metrics_valid \<lparr>router_id = 1, input_ports = [2000], outputs = [(2, (3000, 1))]\<rparr> \<and>
   reachable \<lparr>router_id = 1, input_ports = [2000], outputs = [(2, (3000, 1))]\<rparr>
     \<lparr>our_routerid = 1, output_routers = [(2, (3000, 1))],
       routing_table =
         [(2, \<lparr>next_hop = 2, metric = 16, time_update_due = 31, time_deletion_due = Some 120\<rparr>),
          (5, \<lparr>next_hop = 2, metric = 16, time_update_due = 31, time_deletion_due = Some 120\<rparr>)],
       next_periodic_update = 105, triggered_update_pending = False,
       next_triggered_update = 201 / 2\<rparr> \<and>
   list_all (\<lambda>(d, e). 1 \<le> metric e \<and> metric e \<le> 16)
     (routing_table
     \<lparr>our_routerid = 1, output_routers = [(2, (3000, 1))],
       routing_table =
         [(2, \<lparr>next_hop = 2, metric = 16, time_update_due = 31, time_deletion_due = Some 120\<rparr>),
          (5, \<lparr>next_hop = 2, metric = 16, time_update_due = 31, time_deletion_due = Some 120\<rparr>)],
       next_periodic_update = 105, triggered_update_pending = False,
       next_triggered_update = 201 / 2\<rparr>) \<and>
   new_RipPacket
     ([2, 2, 0, 2] @ [0, 2, 0, 0, 0, 0, 0, 5, 0, 0, 0, 0, 0, 0, 0, 0, 0, 0, 0, 16]
        @ [0, 2, 0, 0, 0, 0, 0, 6, 0, 0, 0, 0, 0, 0, 0, 0, 0, 0, 0, 3]
        @ [0, 2, 0, 0, 0, 0, 0, 7, 0, 0, 0, 0, 0, 0, 0, 0, 0, 0, 0, 15]) =
     Inr \<lparr>routerid = 2,
          entries = [\<lparr>entry_routerid = 5, entry_metric = 16\<rparr>,
                     \<lparr>entry_routerid = 6, entry_metric = 3\<rparr>,
                     \<lparr>entry_routerid = 7, entry_metric = 15\<rparr>]\<rparr> \<and>
   map_of (output_routers
     \<lparr>our_routerid = 1, output_routers = [(2, (3000, 1))],
       routing_table =
         [(2, \<lparr>next_hop = 2, metric = 16, time_update_due = 31, time_deletion_due = Some 120\<rparr>),
          (5, \<lparr>next_hop = 2, metric = 16, time_update_due = 31, time_deletion_due = Some 120\<rparr>)],
       next_periodic_update = 105, triggered_update_pending = False,
       next_triggered_update = 201 / 2\<rparr>) 2 = Some (3000, 1) \<and>
   incoming_message 110
     ([2, 2, 0, 2] @ [0, 2, 0, 0, 0, 0, 0, 5, 0, 0, 0, 0, 0, 0, 0, 0, 0, 0, 0, 16]
        @ [0, 2, 0, 0, 0, 0, 0, 6, 0, 0, 0, 0, 0, 0, 0, 0, 0, 0, 0, 3]
        @ [0, 2, 0, 0, 0, 0, 0, 7, 0, 0, 0, 0, 0, 0, 0, 0, 0, 0, 0, 15])
     \<lparr>our_routerid = 1, output_routers = [(2, (3000, 1))],
       routing_table =
         [(2, \<lparr>next_hop = 2, metric = 16, time_update_due = 31, time_deletion_due = Some 120\<rparr>),
          (5, \<lparr>next_hop = 2, metric = 16, time_update_due = 31, time_deletion_due = Some 120\<rparr>)],
       next_periodic_update = 105, triggered_update_pending = False,
       next_triggered_update = 201 / 2\<rparr> =
     \<lparr>our_routerid = 1, output_routers = [(2, (3000, 1))],
       routing_table =
         [(2, \<lparr>next_hop = 2, metric = 1, time_update_due = 140, time_deletion_due = None\<rparr>),
          (5, \<lparr>next_hop = 2, metric = 16, time_update_due = 140, time_deletion_due = Some 120\<rparr>),
          (6, \<lparr>next_hop = 2, metric = 4, time_update_due = 140, time_deletion_due = None\<rparr>)],
       next_periodic_update = 105, triggered_update_pending = False,
       next_triggered_update = 201 / 2\<rparr> \<and>
   begin_deletion 100 \<lparr>next_hop = 2, metric = 1, time_update_due = 31, time_deletion_due = None\<rparr> =
     Inr \<lparr>next_hop = 2, metric = 16, time_update_due = 31, time_deletion_due = Some 120\<rparr> \<and>
   metric \<lparr>next_hop = 2, metric = 16, time_update_due = 31, time_deletion_due = Some 120\<rparr> = 16"
proof -
  have "reachable \<lparr>router_id = 1, input_ports = [2000], outputs = [(2, (3000, 1))]\<rparr>
      (incoming_message 1
        ([2, 2, 0, 2] @ [0, 2, 0, 0, 0, 0, 0, 1, 0, 0, 0, 0, 0, 0, 0, 0, 0, 0, 0, 1]
           @ [0, 2, 0, 0, 0, 0, 0, 5, 0, 0, 0, 0, 0, 0, 0, 0, 0, 0, 0, 1])
        (new_RipManager 0 \<lparr>router_id = 1, input_ports = [2000], outputs = [(2, (3000, 1))]\<rparr>))"
    by (rule reachable.received [OF reachable.start])
  then have r1: "reachable \<lparr>router_id = 1, input_ports = [2000], outputs = [(2, (3000, 1))]\<rparr>
      \<lparr>our_routerid = 1, output_routers = [(2, (3000, 1))],
       routing_table =
         [(2, \<lparr>next_hop = 2, metric = 1, time_update_due = 31, time_deletion_due = None\<rparr>),
          (5, \<lparr>next_hop = 2, metric = 2, time_update_due = 31, time_deletion_due = None\<rparr>)],
       next_periodic_update = 0, triggered_update_pending = False,
       next_triggered_update = 0\<rparr>"
    by (simp only: example_message)
  have r2: "reachable \<lparr>router_id = 1, input_ports = [2000], outputs = [(2, (3000, 1))]\<rparr>
      \<lparr>our_routerid = 1, output_routers = [(2, (3000, 1))],
       routing_table =
         [(2, \<lparr>next_hop = 2, metric = 16, time_update_due = 31, time_deletion_due = Some 120\<rparr>),
          (5, \<lparr>next_hop = 2, metric = 16, time_update_due = 31, time_deletion_due = Some 120\<rparr>)],
       next_periodic_update = 105, triggered_update_pending = False,
       next_triggered_update = 201 / 2\<rparr>"
    using r1 example_update by (rule reachable.updated)
  have l: "link_metrics_valid \<lparr>router_id = 1, input_ports = [2000], outputs = [(2, (3000, 1))]\<rparr>"
    by (simp add: link_metrics_valid_def metric_is_valid_def)
  note t = metrics_in_range [OF l r2]
  from t have a: "\<forall>(d, e) \<in> set (routing_table
     \<lparr>our_routerid = 1, output_routers = [(2, (3000, 1))],
       routing_table =
         [(2, \<lparr>next_hop = 2, metric = 16, time_update_due = 31, time_deletion_due = Some 120\<rparr>),
          (5, \<lparr>next_hop = 2, metric = 16, time_update_due = 31, time_deletion_due = Some 120\<rparr>)],
       next_periodic_update = 105, triggered_update_pending = False,
       next_triggered_update = 201 / 2\<rparr>).
      1 \<le> metric e \<and> metric e \<le> 16"
    by (rule conjunct1)
  have pk: "new_RipPacket
     ([2, 2, 0, 2] @ [0, 2, 0, 0, 0, 0, 0, 5, 0, 0, 0, 0, 0, 0, 0, 0, 0, 0, 0, 16]
        @ [0, 2, 0, 0, 0, 0, 0, 6, 0, 0, 0, 0, 0, 0, 0, 0, 0, 0, 0, 3]
        @ [0, 2, 0, 0, 0, 0, 0, 7, 0, 0, 0, 0, 0, 0, 0, 0, 0, 0, 0, 15]) =
     Inr \<lparr>routerid = 2,
          entries = [\<lparr>entry_routerid = 5, entry_metric = 16\<rparr>,
                     \<lparr>entry_routerid = 6, entry_metric = 3\<rparr>,
                     \<lparr>entry_routerid = 7, entry_metric = 15\<rparr>]\<rparr>"
    by (simp add: new_RipPacket_def validate_rip_packet_def routerid_is_valid_def
        metric_is_valid_def py_range.simps new_RipEntry_def validate_rip_entry_def slice_def
        from_bytes_def Let_def)
  have mo: "map_of (output_routers
     \<lparr>our_routerid = 1, output_routers = [(2, (3000, 1))],
       routing_table =
         [(2, \<lparr>next_hop = 2, metric = 16, time_update_due = 31, time_deletion_due = Some 120\<rparr>),
          (5, \<lparr>next_hop = 2, metric = 16, time_update_due = 31, time_deletion_due = Some 120\<rparr>)],
       next_periodic_update = 105, triggered_update_pending = False,
       next_triggered_update = 201 / 2\<rparr>) 2 = Some (3000, 1)"
    by simp
  have mo': "map_of (output_routers
     \<lparr>our_routerid = 1, output_routers = [(2, (3000, 1))],
       routing_table =
         [(2, \<lparr>next_hop = 2, metric = 16, time_update_due = 31, time_deletion_due = Some 120\<rparr>),
          (5, \<lparr>next_hop = 2, metric = 16, time_update_due = 31, time_deletion_due = Some 120\<rparr>)],
       next_periodic_update = 105, triggered_update_pending = False,
       next_triggered_update = 201 / 2\<rparr>)
     (routerid \<lparr>routerid = 2,
          entries = [\<lparr>entry_routerid = 5, entry_metric = 16\<rparr>,
                     \<lparr>entry_routerid = 6, entry_metric = 3\<rparr>,
                     \<lparr>entry_routerid = 7, entry_metric = 15\<rparr>]\<rparr>) = Some (3000, 1)"
    by simp
  note f = t [THEN conjunct2, THEN conjunct1, rule_format, OF conjI [OF pk mo'], THEN conjunct1]
  have c: "incoming_message 110
     ([2, 2, 0, 2] @ [0, 2, 0, 0, 0, 0, 0, 5, 0, 0, 0, 0, 0, 0, 0, 0, 0, 0, 0, 16]
        @ [0, 2, 0, 0, 0, 0, 0, 6, 0, 0, 0, 0, 0, 0, 0, 0, 0, 0, 0, 3]
        @ [0, 2, 0, 0, 0, 0, 0, 7, 0, 0, 0, 0, 0, 0, 0, 0, 0, 0, 0, 15])
     \<lparr>our_routerid = 1, output_routers = [(2, (3000, 1))],
       routing_table =
         [(2, \<lparr>next_hop = 2, metric = 16, time_update_due = 31, time_deletion_due = Some 120\<rparr>),
          (5, \<lparr>next_hop = 2, metric = 16, time_update_due = 31, time_deletion_due = Some 120\<rparr>)],
       next_periodic_update = 105, triggered_update_pending = False,
       next_triggered_update = 201 / 2\<rparr> =
     \<lparr>our_routerid = 1, output_routers = [(2, (3000, 1))],
       routing_table =
         [(2, \<lparr>next_hop = 2, metric = 1, time_update_due = 140, time_deletion_due = None\<rparr>),
          (5, \<lparr>next_hop = 2, metric = 16, time_update_due = 140, time_deletion_due = Some 120\<rparr>),
          (6, \<lparr>next_hop = 2, metric = 4, time_update_due = 140, time_deletion_due = None\<rparr>)],
       next_periodic_update = 105, triggered_update_pending = False,
       next_triggered_update = 201 / 2\<rparr>"
    by (subst f)
       (simp add: add_to_table_def update_entry_def update_entry_branches_def
          refresh_timeouts_def new_RoutingTableEntry_def Let_def INFINITE_METRIC_def
          ENTRY_TIMEOUT_DELAY_def TIME_MULTIPLIER_def)
  have b: "begin_deletion 100 \<lparr>next_hop = 2, metric = 1, time_update_due = 31, time_deletion_due = None\<rparr> =
     Inr \<lparr>next_hop = 2, metric = 16, time_update_due = 31, time_deletion_due = Some 120\<rparr>"
    by (simp add: begin_deletion_def deletion_process_underway_def
        INFINITE_METRIC_def GARBAGE_COLLECTION_DELAY_def TIME_MULTIPLIER_def)
  from t have "\<forall>now e e'. begin_deletion now e = Inr e' \<longrightarrow> metric e' = 16"
    by (rule conjunct2 [OF conjunct2])
  with b have m: "metric \<lparr>next_hop = 2, metric = 16, time_update_due = 31, time_deletion_due = Some 120\<rparr> = 16"
    by blast
  from a have a': "list_all (\<lambda>(d, e). 1 \<le> metric e \<and> metric e \<le> 16)
     (routing_table
     \<lparr>our_routerid = 1, output_routers = [(2, (3000, 1))],
       routing_table =
         [(2, \<lparr>next_hop = 2, metric = 16, time_update_due = 31, time_deletion_due = Some 120\<rparr>),
          (5, \<lparr>next_hop = 2, metric = 16, time_update_due = 31, time_deletion_due = Some 120\<rparr>)],
       next_periodic_update = 105, triggered_update_pending = False,
       next_triggered_update = 201 / 2\<rparr>)"
    by (simp only: list_all_iff)
  from l r2 a' pk mo c b m show ?thesis by (intro conjI)
qed

theorem deletion_due_implies_infinite_metric_witness:
  "reachable \<lparr>router_id = 1, input_ports = [2000], outputs = [(2, (3000, 1))]\<rparr>
     \<lparr>our_routerid = 1, output_routers = [(2, (3000, 1))],
       routing_table =
         [(2, \<lparr>next_hop = 2, metric = 16, time_update_due = 31, time_deletion_due = Some 120\<rparr>),
          (5, \<lparr>next_hop = 2, metric = 16, time_update_due = 31, time_deletion_due = Some 120\<rparr>)],
       next_periodic_update = 105, triggered_update_pending = False,
       next_triggered_update = 201 / 2\<rparr> \<and>
   list_all (\<lambda>(d, e). time_deletion_due e \<noteq> None \<and> metric e = 16)
     (routing_table
     \<lparr>our_routerid = 1, output_routers = [(2, (3000, 1))],
       routing_table =
         [(2, \<lparr>next_hop = 2, metric = 16, time_update_due = 31, time_deletion_due = Some 120\<rparr>),
          (5, \<lparr>next_hop = 2, metric = 16, time_update_due = 31, time_deletion_due = Some 120\<rparr>)],
       next_periodic_update = 105, triggered_update_pending = False,
       next_triggered_update = 201 / 2\<rparr>) \<and>
   time_deletion_due \<lparr>next_hop = 2, metric = 1, time_update_due = 31, time_deletion_due = None\<rparr> = None \<and>
   begin_deletion 100 \<lparr>next_hop = 2, metric = 1, time_update_due = 31, time_deletion_due = None\<rparr> =
     Inr \<lparr>next_hop = 2, metric = 16, time_update_due = 31, time_deletion_due = Some 120\<rparr> \<and>
   update_entry_branches 110 2 1 \<lparr>next_hop = 2, metric = 16, time_update_due = 31, time_deletion_due = Some 120\<rparr> =
     (Some (Update_is_from_next_hop 2 16 1), True,
      \<lparr>next_hop = 2, metric = 1, time_update_due = 31, time_deletion_due = Some 120\<rparr>) \<and>
   metric \<lparr>next_hop = 2, metric = 1, time_update_due = 31, time_deletion_due = Some 120\<rparr> < 16 \<and>
   time_deletion_due
     (snd (update_entry 110 2 1 \<lparr>next_hop = 2, metric = 16, time_update_due = 31, time_deletion_due = Some 120\<rparr>)) = None"
proof -
  have "reachable \<lparr>router_id = 1, input_ports = [2000], outputs = [(2, (3000, 1))]\<rparr>
      (incoming_message 1
        ([2, 2, 0, 2] @ [0, 2, 0, 0, 0, 0, 0, 1, 0, 0, 0, 0, 0, 0, 0, 0, 0, 0, 0, 1]
           @ [0, 2, 0, 0, 0, 0, 0, 5, 0, 0, 0, 0, 0, 0, 0, 0, 0, 0, 0, 1])
        (new_RipManager 0 \<lparr>router_id = 1, input_ports = [2000], outputs = [(2, (3000, 1))]\<rparr>))"
    by (rule reachable.received [OF reachable.start])
  then have r1: "reachable \<lparr>router_id = 1, input_ports = [2000], outputs = [(2, (3000, 1))]\<rparr>
      \<lparr>our_routerid = 1, output_routers = [(2, (3000, 1))],
       routing_table =
         [(2, \<lparr>next_hop = 2, metric = 1, time_update_due = 31, time_deletion_due = None\<rparr>),
          (5, \<lparr>next_hop = 2, metric = 2, time_update_due = 31, time_deletion_due = None\<rparr>)],
       next_periodic_update = 0, triggered_update_pending = False,
       next_triggered_update = 0\<rparr>"
    by (simp only: example_message)
  have r2: "reachable \<lparr>router_id = 1, input_ports = [2000], outputs = [(2, (3000, 1))]\<rparr>
      \<lparr>our_routerid = 1, output_routers = [(2, (3000, 1))],
       routing_table =
         [(2, \<lparr>next_hop = 2, metric = 16, time_update_due = 31, time_deletion_due = Some 120\<rparr>),
          (5, \<lparr>next_hop = 2, metric = 16, time_update_due = 31, time_deletion_due = Some 120\<rparr>)],
       next_periodic_update = 105, triggered_update_pending = False,
       next_triggered_update = 201 / 2\<rparr>"
    using r1 example_update by (rule reachable.updated)
  note t = deletion_due_implies_infinite_metric [OF r2]
  have d: "\<forall>(d, e) \<in> set (routing_table
     \<lparr>our_routerid = 1, output_routers = [(2, (3000, 1))],
       routing_table =
         [(2, \<lparr>next_hop = 2, metric = 16, time_update_due = 31, time_deletion_due = Some 120\<rparr>),
          (5, \<lparr>next_hop = 2, metric = 16, time_update_due = 31, time_deletion_due = Some 120\<rparr>)],
       next_periodic_update = 105, triggered_update_pending = False,
       next_triggered_update = 201 / 2\<rparr>).
      time_deletion_due e \<noteq> None"
    by simp
  from t have "\<forall>(d, e) \<in> set (routing_table
     \<lparr>our_routerid = 1, output_routers = [(2, (3000, 1))],
       routing_table =
         [(2, \<lparr>next_hop = 2, metric = 16, time_update_due = 31, time_deletion_due = Some 120\<rparr>),
          (5, \<lparr>next_hop = 2, metric = 16, time_update_due = 31, time_deletion_due = Some 120\<rparr>)],
       next_periodic_update = 105, triggered_update_pending = False,
       next_triggered_update = 201 / 2\<rparr>).
      time_deletion_due e \<noteq> None \<longrightarrow> metric e = 16"
    by (rule conjunct1)
  with d have a: "\<forall>(d, e) \<in> set (routing_table
     \<lparr>our_routerid = 1, output_routers = [(2, (3000, 1))],
       routing_table =
         [(2, \<lparr>next_hop = 2, metric = 16, time_update_due = 31, time_deletion_due = Some 120\<rparr>),
          (5, \<lparr>next_hop = 2, metric = 16, time_update_due = 31, time_deletion_due = Some 120\<rparr>)],
       next_periodic_update = 105, triggered_update_pending = False,
       next_triggered_update = 201 / 2\<rparr>).
      time_deletion_due e \<noteq> None \<and> metric e = 16"
    by fastforce
  have n: "time_deletion_due \<lparr>next_hop = 2, metric = 1, time_update_due = 31, time_deletion_due = None\<rparr> = None"
    by simp
  from t have "\<forall>now e. time_deletion_due e = None \<longrightarrow>
       begin_deletion now e =
         Inr (e\<lparr>metric := 16, time_deletion_due := Some (now + GARBAGE_COLLECTION_DELAY)\<rparr>)"
    by (rule conjunct1 [OF conjunct2])
  with n have "begin_deletion 100 \<lparr>next_hop = 2, metric = 1, time_update_due = 31, time_deletion_due = None\<rparr> =
      Inr (\<lparr>next_hop = 2, metric = 1, time_update_due = 31, time_deletion_due = None\<rparr>
        \<lparr>metric := 16, time_deletion_due := Some (100 + GARBAGE_COLLECTION_DELAY)\<rparr>)"
    by blast
  then have b: "begin_deletion 100 \<lparr>next_hop = 2, metric = 1, time_update_due = 31, time_deletion_due = None\<rparr> =
     Inr \<lparr>next_hop = 2, metric = 16, time_update_due = 31, time_deletion_due = Some 120\<rparr>"
    by (simp add: GARBAGE_COLLECTION_DELAY_def TIME_MULTIPLIER_def)
  have u: "update_entry_branches 110 2 1 \<lparr>next_hop = 2, metric = 16, time_update_due = 31, time_deletion_due = Some 120\<rparr> =
     (Some (Update_is_from_next_hop 2 16 1), True,
      \<lparr>next_hop = 2, metric = 1, time_update_due = 31, time_deletion_due = Some 120\<rparr>)"
    by (simp add: update_entry_branches_def)
  have m: "metric \<lparr>next_hop = 2, metric = 1, time_update_due = 31, time_deletion_due = Some 120\<rparr> < 16"
    by simp
  from t have "\<forall>now nh m e r e'. update_entry_branches now nh m e = (r, True, e') \<and> metric e' < 16 \<longrightarrow>
       time_deletion_due (snd (update_entry now nh m e)) = None"
    by (rule conjunct2 [OF conjunct2])
  with u m have c: "time_deletion_due
     (snd (update_entry 110 2 1 \<lparr>next_hop = 2, metric = 16, time_update_due = 31, time_deletion_due = Some 120\<rparr>)) = None"
    by blast
  from a have a': "list_all (\<lambda>(d, e). time_deletion_due e \<noteq> None \<and> metric e = 16)
     (routing_table
     \<lparr>our_routerid = 1, output_routers = [(2, (3000, 1))],
       routing_table =
         [(2, \<lparr>next_hop = 2, metric = 16, time_update_due = 31, time_deletion_due = Some 120\<rparr>),
          (5, \<lparr>next_hop = 2, metric = 16, time_update_due = 31, time_deletion_due = Some 120\<rparr>)],
       next_periodic_update = 105, triggered_update_pending = False,
       next_triggered_update = 201 / 2\<rparr>)"
    by (simp only: list_all_iff)
  from r2 a' n b u m c show ?thesis by (intro conjI)
qed

section \<open>The leading entries of outbound packets\<close>

lemma length_to_bytes: "to_bytes x n = Inr b \<Longrightarrow> length b = n"
  by (auto simp: to_bytes_def length_be_bytes split: if_splits)

lemma length_empty_rip_packet: "empty_rip_packet r = Inr h \<Longrightarrow> length h = 4"
  by (auto simp: empty_rip_packet_def bytearray_4 set_slice_def Let_def split: sum.splits
      dest: length_to_bytes)

lemma length_rip_entry: "rip_entry d m = Inr b \<Longrightarrow> length b = 20"
  by (auto simp: rip_entry_def bytearray_def set_slice_def Let_def split: sum.splits
      dest!: length_to_bytes)

lemma leads_with_route_mono:
  "leads_with_route our peer table q \<Longrightarrow> leads_with_route our peer (x # table) q"
  by (auto simp: leads_with_route_def)

lemma build_packets_loop_shape:
  "build_packets_loop our peer table packets packet = Inr result \<Longrightarrow>
   \<exists>rest more. result = packets @ (packet @ rest) # more \<and>
     (\<forall>q \<in> set more. leads_with_route our peer table q)"
proof (induction table arbitrary: packets packet)
  case Nil
  then show ?case by auto
next
  case (Cons x table)
  obtain destination entry where x: "x = (destination, entry)" by (cases x)
  let ?m = "if next_hop entry = peer then INFINITE_METRIC else metric entry"
  from Cons.prems consider
    (skip) "build_packets_loop our peer table packets packet = Inr result"
    | (flush) fresh r where "empty_rip_packet our = Inr fresh"
        "rip_entry destination ?m = Inr r"
        "build_packets_loop our peer table (packets @ [packet]) (fresh @ r) = Inr result"
    | (add) r where "build_packets_loop our peer table packets (packet @ r) = Inr result"
    unfolding x by (auto simp: Let_def split: if_splits sum.splits)
  then show ?case
  proof cases
    case skip
    from Cons.IH [OF skip] obtain rest more where
      r: "result = packets @ (packet @ rest) # more"
      and m: "\<forall>q \<in> set more. leads_with_route our peer table q" by blast
    from m have "\<forall>q \<in> set more. leads_with_route our peer (x # table) q"
      by (blast intro: leads_with_route_mono)
    with r show ?thesis by blast
  next
    case flush
    from Cons.IH [OF flush(3)] obtain rest more where
      r: "result = (packets @ [packet]) @ ((fresh @ r) @ rest) # more"
      and m: "\<forall>q \<in> set more. leads_with_route our peer table q" by blast
    have "leads_with_route our peer (x # table) ((fresh @ r) @ rest)"
      unfolding leads_with_route_def x using flush(1,2) by auto
    with m have "\<forall>q \<in> set (((fresh @ r) @ rest) # more). leads_with_route our peer (x # table) q"
      by (auto intro: leads_with_route_mono)
    moreover from r have "result = packets @ (packet @ []) # (((fresh @ r) @ rest) # more)"
      by simp
    ultimately show ?thesis by blast
  next
    case add
    from Cons.IH [OF add] obtain rest more where
      r: "result = packets @ ((packet @ r) @ rest) # more"
      and m: "\<forall>q \<in> set more. leads_with_route our peer table q" by blast
    from m have "\<forall>q \<in> set more. leads_with_route our peer (x # table) q"
      by (blast intro: leads_with_route_mono)
    moreover from r have "result = packets @ (packet @ (r @ rest)) # more" by simp
    ultimately show ?thesis by blast
  qed
qed

text \<open>
  C1 (as amended). When \<^verbatim>\<open>build_packets(peer_id)\<close> returns, the sequence of packets
  is not empty and the first RIP entry of its first packet is \<open>(peer_id, 16)\<close>. Every
  later packet starts, after its header, with a route of the table as it is advertised to
  that neighbour: the destination with the route's metric, or with 16 when the route's next
  hop is the neighbour. The entry \<open>(peer_id, 16)\<close> is written once, before the loop over
  the table, and a packet begun when the previous one is full gets the header only.
\<close>

theorem build_packets_leading_entries:
  assumes "build_packets peer s = Inr packets"
  shows "packets \<noteq> [] \<and>
    rip_entry peer INFINITE_METRIC = Inr (slice (hd packets) 4 24) \<and>
    (\<forall>q \<in> set (tl packets). \<exists>(d, e) \<in> set (routing_table s).
       rip_entry d (if next_hop e = peer then INFINITE_METRIC else metric e) =
         Inr (slice q 4 24))"
proof -
  from assms obtain h b where h: "empty_rip_packet (our_routerid s) = Inr h"
    and b: "rip_entry peer INFINITE_METRIC = Inr b"
    and loop: "build_packets_loop (our_routerid s) peer (routing_table s) [] (h @ b) = Inr packets"
    by (auto simp: build_packets_def split: sum.splits)
  from build_packets_loop_shape [OF loop] obtain rest more where
    p: "packets = ((h @ b) @ rest) # more"
    and m: "\<forall>q \<in> set more. leads_with_route (our_routerid s) peer (routing_table s) q"
    by auto
  have first: "slice (hd packets) 4 24 = b"
    using length_empty_rip_packet [OF h] length_rip_entry [OF b] by (simp add: p slice_def)
  have later: "\<exists>(d, e) \<in> set (routing_table s).
       rip_entry d (if next_hop e = peer then INFINITE_METRIC else metric e) =
         Inr (slice q 4 24)" if "q \<in> set (tl packets)" for q
  proof -
    from that m p have "leads_with_route (our_routerid s) peer (routing_table s) q" by simp
    then obtain d e h' b' rest' where de: "(d, e) \<in> set (routing_table s)"
      and h': "empty_rip_packet (our_routerid s) = Inr h'"
      and b': "rip_entry d (if next_hop e = peer then INFINITE_METRIC else metric e) = Inr b'"
      and q: "q = (h' @ b') @ rest'"
      unfolding leads_with_route_def by blast
    have "slice q 4 24 = b'"
      using length_empty_rip_packet [OF h'] length_rip_entry [OF b'] by (simp add: q slice_def)
    with b' have "case (d, e) of (d, e) \<Rightarrow>
        rip_entry d (if next_hop e = peer then INFINITE_METRIC else metric e) =
          Inr (slice q 4 24)"
      by (simp only: prod.case)
    from this de show ?thesis by (rule bexI)
  qed
  from b p first later show ?thesis by simp
qed

text \<open>
  Router 1 with 25 routes, to the routers 3 to 27, all through its neighbour 3, builds the
  packets for its neighbour 2.
\<close>

lemma example_build_packets:
  "build_packets 2
     \<lparr>our_routerid = 1, output_routers = [(2, (3000, 1)), (3, (3001, 1))],
      routing_table =
        zip [3..27]
          (replicate 25 \<lparr>next_hop = 3, metric = 1, time_update_due = 30, time_deletion_due = None\<rparr>),
      next_periodic_update = 0, triggered_update_pending = False, next_triggered_update = 0\<rparr> =
   Inr [[2, 2, 0, 1] @ entry_bytes 2 16 @ entry_bytes 3 1 @ entry_bytes 4 1 @ entry_bytes 5 1 @
        entry_bytes 6 1 @ entry_bytes 7 1 @ entry_bytes 8 1 @ entry_bytes 9 1 @
        entry_bytes 10 1 @ entry_bytes 11 1 @ entry_bytes 12 1 @ entry_bytes 13 1 @
        entry_bytes 14 1 @ entry_bytes 15 1 @ entry_bytes 16 1 @ entry_bytes 17 1 @
        entry_bytes 18 1 @ entry_bytes 19 1 @ entry_bytes 20 1 @ entry_bytes 21 1 @
        entry_bytes 22 1 @ entry_bytes 23 1 @ entry_bytes 24 1 @ entry_bytes 25 1 @
        entry_bytes 26 1,
        [2, 2, 0, 1] @ entry_bytes 27 1]"
  by (simp add: build_packets_def POISONED_REVERSE_def rip_entry_bytes length_entry_bytes
      empty_rip_packet_valid routerid_is_valid_def be_bytes_numeral replicate_pred_numeral
      INFINITE_METRIC_def)


theorem build_packets_leading_entries_witness:
  "build_packets 2
     \<lparr>our_routerid = 1, output_routers = [(2, (3000, 1)), (3, (3001, 1))],
      routing_table =
        zip [3..27]
          (replicate 25 \<lparr>next_hop = 3, metric = 1, time_update_due = 30, time_deletion_due = None\<rparr>),
      next_periodic_update = 0, triggered_update_pending = False, next_triggered_update = 0\<rparr> =
   Inr [([2, 2, 0, 1] @ entry_bytes 2 16 @ entry_bytes 3 1 @ entry_bytes 4 1 @ entry_bytes 5 1 @
        entry_bytes 6 1 @ entry_bytes 7 1 @ entry_bytes 8 1 @ entry_bytes 9 1 @
        entry_bytes 10 1 @ entry_bytes 11 1 @ entry_bytes 12 1 @ entry_bytes 13 1 @
        entry_bytes 14 1 @ entry_bytes 15 1 @ entry_bytes 16 1 @ entry_bytes 17 1 @
        entry_bytes 18 1 @ entry_bytes 19 1 @ entry_bytes 20 1 @ entry_bytes 21 1 @
        entry_bytes 22 1 @ entry_bytes 23 1 @ entry_bytes 24 1 @ entry_bytes 25 1 @
        entry_bytes 26 1),
        ([2, 2, 0, 1] @ entry_bytes 27 1)] \<and>
   rip_entry 2 INFINITE_METRIC =
     Inr (slice ([2, 2, 0, 1] @ entry_bytes 2 16 @ entry_bytes 3 1 @ entry_bytes 4 1 @ entry_bytes 5 1 @
        entry_bytes 6 1 @ entry_bytes 7 1 @ entry_bytes 8 1 @ entry_bytes 9 1 @
        entry_bytes 10 1 @ entry_bytes 11 1 @ entry_bytes 12 1 @ entry_bytes 13 1 @
        entry_bytes 14 1 @ entry_bytes 15 1 @ entry_bytes 16 1 @ entry_bytes 17 1 @
        entry_bytes 18 1 @ entry_bytes 19 1 @ entry_bytes 20 1 @ entry_bytes 21 1 @
        entry_bytes 22 1 @ entry_bytes 23 1 @ entry_bytes 24 1 @ entry_bytes 25 1 @
        entry_bytes 26 1) 4 24) \<and>
   (\<exists>(d, e) \<in> set (routing_table
     \<lparr>our_routerid = 1, output_routers = [(2, (3000, 1)), (3, (3001, 1))],
      routing_table =
        zip [3..27]
          (replicate 25 \<lparr>next_hop = 3, metric = 1, time_update_due = 30, time_deletion_due = None\<rparr>),
      next_periodic_update = 0, triggered_update_pending = False, next_triggered_update = 0\<rparr>).
      rip_entry d (if next_hop e = 2 then INFINITE_METRIC else metric e) =
        Inr (slice ([2, 2, 0, 1] @ entry_bytes 27 1) 4 24))"
proof -
  note t = build_packets_leading_entries [OF example_build_packets]
  from t have a: "rip_entry 2 INFINITE_METRIC =
     Inr (slice ([2, 2, 0, 1] @ entry_bytes 2 16 @ entry_bytes 3 1 @ entry_bytes 4 1 @ entry_bytes 5 1 @
        entry_bytes 6 1 @ entry_bytes 7 1 @ entry_bytes 8 1 @ entry_bytes 9 1 @
        entry_bytes 10 1 @ entry_bytes 11 1 @ entry_bytes 12 1 @ entry_bytes 13 1 @
        entry_bytes 14 1 @ entry_bytes 15 1 @ entry_bytes 16 1 @ entry_bytes 17 1 @
        entry_bytes 18 1 @ entry_bytes 19 1 @ entry_bytes 20 1 @ entry_bytes 21 1 @
        entry_bytes 22 1 @ entry_bytes 23 1 @ entry_bytes 24 1 @ entry_bytes 25 1 @
        entry_bytes 26 1) 4 24)"
    by (simp only: list.sel)
  from t have "\<forall>q \<in> set (tl [([2, 2, 0, 1] @ entry_bytes 2 16 @ entry_bytes 3 1 @ entry_bytes 4 1 @ entry_bytes 5 1 @
        entry_bytes 6 1 @ entry_bytes 7 1 @ entry_bytes 8 1 @ entry_bytes 9 1 @
        entry_bytes 10 1 @ entry_bytes 11 1 @ entry_bytes 12 1 @ entry_bytes 13 1 @
        entry_bytes 14 1 @ entry_bytes 15 1 @ entry_bytes 16 1 @ entry_bytes 17 1 @
        entry_bytes 18 1 @ entry_bytes 19 1 @ entry_bytes 20 1 @ entry_bytes 21 1 @
        entry_bytes 22 1 @ entry_bytes 23 1 @ entry_bytes 24 1 @ entry_bytes 25 1 @
        entry_bytes 26 1),
        ([2, 2, 0, 1] @ entry_bytes 27 1)]).
      \<exists>(d, e) \<in> set (routing_table
     \<lparr>our_routerid = 1, output_routers = [(2, (3000, 1)), (3, (3001, 1))],
      routing_table =
        zip [3..27]
          (replicate 25 \<lparr>next_hop = 3, metric = 1, time_update_due = 30, time_deletion_due = None\<rparr>),
      next_periodic_update = 0, triggered_update_pending = False, next_triggered_update = 0\<rparr>).
      rip_entry d (if next_hop e = 2 then INFINITE_METRIC else metric e) = Inr (slice q 4 24)"
    by (rule conjunct2 [OF conjunct2])
  then have b: "\<exists>(d, e) \<in> set (routing_table
     \<lparr>our_routerid = 1, output_routers = [(2, (3000, 1)), (3, (3001, 1))],
      routing_table =
        zip [3..27]
          (replicate 25 \<lparr>next_hop = 3, metric = 1, time_update_due = 30, time_deletion_due = None\<rparr>),
      next_periodic_update = 0, triggered_update_pending = False, next_triggered_update = 0\<rparr>).
      rip_entry d (if next_hop e = 2 then INFINITE_METRIC else metric e) =
        Inr (slice ([2, 2, 0, 1] @ entry_bytes 27 1) 4 24)"
    by (rule bspec) (simp only: list.sel list.set insertI1)
  from example_build_packets a b show ?thesis by (intro conjI)
qed

text \<open>
  C1 as stated fails: with 25 routes in the table the result has two packets, and the first
  entry of the second one is the route to router 27 with metric 1, not \<open>(2, 16)\<close>.
\<close>

theorem build_packets_second_packet_counterexample:
  "\<not> isl (build_packets 2
     \<lparr>our_routerid = 1, output_routers = [(2, (3000, 1)), (3, (3001, 1))],
      routing_table =
        zip [3..27]
          (replicate 25 \<lparr>next_hop = 3, metric = 1, time_update_due = 30, time_deletion_due = None\<rparr>),
      next_periodic_update = 0, triggered_update_pending = False, next_triggered_update = 0\<rparr>) \<and>
   length (projr (build_packets 2
     \<lparr>our_routerid = 1, output_routers = [(2, (3000, 1)), (3, (3001, 1))],
      routing_table =
        zip [3..27]
          (replicate 25 \<lparr>next_hop = 3, metric = 1, time_update_due = 30, time_deletion_due = None\<rparr>),
      next_periodic_update = 0, triggered_update_pending = False, next_triggered_update = 0\<rparr>)) = 2 \<and>
   rip_entry 2 INFINITE_METRIC =
     Inr [0, 2, 0, 0, 0, 0, 0, 2, 0, 0, 0, 0, 0, 0, 0, 0, 0, 0, 0, 16] \<and>
   slice (projr (build_packets 2
     \<lparr>our_routerid = 1, output_routers = [(2, (3000, 1)), (3, (3001, 1))],
      routing_table =
        zip [3..27]
          (replicate 25 \<lparr>next_hop = 3, metric = 1, time_update_due = 30, time_deletion_due = None\<rparr>),
      next_periodic_update = 0, triggered_update_pending = False, next_triggered_update = 0\<rparr>) ! 1) 4 24 =
     [0, 2, 0, 0, 0, 0, 0, 27, 0, 0, 0, 0, 0, 0, 0, 0, 0, 0, 0, 1] \<and>
   new_RipPacket (projr (build_packets 2
     \<lparr>our_routerid = 1, output_routers = [(2, (3000, 1)), (3, (3001, 1))],
      routing_table =
        zip [3..27]
          (replicate 25 \<lparr>next_hop = 3, metric = 1, time_update_due = 30, time_deletion_due = None\<rparr>),
      next_periodic_update = 0, triggered_update_pending = False, next_triggered_update = 0\<rparr>) ! 1) =
     Inr \<lparr>routerid = 1, entries = [\<lparr>entry_routerid = 27, entry_metric = 1\<rparr>]\<rparr>"
proof -
  have n: "\<not> isl (build_packets 2
     \<lparr>our_routerid = 1, output_routers = [(2, (3000, 1)), (3, (3001, 1))],
      routing_table =
        zip [3..27]
          (replicate 25 \<lparr>next_hop = 3, metric = 1, time_update_due = 30, time_deletion_due = None\<rparr>),
      next_periodic_update = 0, triggered_update_pending = False, next_triggered_update = 0\<rparr>)"
    and l: "length (projr (build_packets 2
     \<lparr>our_routerid = 1, output_routers = [(2, (3000, 1)), (3, (3001, 1))],
      routing_table =
        zip [3..27]
          (replicate 25 \<lparr>next_hop = 3, metric = 1, time_update_due = 30, time_deletion_due = None\<rparr>),
      next_periodic_update = 0, triggered_update_pending = False, next_triggered_update = 0\<rparr>)) = 2"
    unfolding example_build_packets by simp_all
  have p: "projr (build_packets 2
     \<lparr>our_routerid = 1, output_routers = [(2, (3000, 1)), (3, (3001, 1))],
      routing_table =
        zip [3..27]
          (replicate 25 \<lparr>next_hop = 3, metric = 1, time_update_due = 30, time_deletion_due = None\<rparr>),
      next_periodic_update = 0, triggered_update_pending = False, next_triggered_update = 0\<rparr>) ! 1 =
     [2, 2, 0, 1, 0, 2, 0, 0, 0, 0, 0, 27, 0, 0, 0, 0, 0, 0, 0, 0, 0, 0, 0, 1]"
    unfolding example_build_packets
    by (simp add: entry_bytes_def be_bytes_numeral replicate_pred_numeral)
  have r: "rip_entry 2 INFINITE_METRIC =
     Inr [0, 2, 0, 0, 0, 0, 0, 2, 0, 0, 0, 0, 0, 0, 0, 0, 0, 0, 0, 16]"
    by (simp add: rip_entry_bytes entry_bytes_def be_bytes_numeral replicate_pred_numeral
        INFINITE_METRIC_def)
  have s: "slice [2, 2, 0, 1, 0, 2, 0, 0, 0, 0, 0, 27, 0, 0, 0, 0, 0, 0, 0, 0, 0, 0, 0, 1] 4 24 =
     [0, 2, 0, 0, 0, 0, 0, 27, 0, 0, 0, 0, 0, 0, 0, 0, 0, 0, 0, 1]"
    by (simp add: slice_def)
  have d: "new_RipPacket [2, 2, 0, 1, 0, 2, 0, 0, 0, 0, 0, 27, 0, 0, 0, 0, 0, 0, 0, 0, 0, 0, 0, 1] =
     Inr \<lparr>routerid = 1, entries = [\<lparr>entry_routerid = 27, entry_metric = 1\<rparr>]\<rparr>"
    by (simp add: new_RipPacket_def validate_rip_packet_def routerid_is_valid_def
        metric_is_valid_def py_range.simps new_RipEntry_def validate_rip_entry_def slice_def
        from_bytes_def Let_def)
  from n l r s d show ?thesis unfolding p by (intro conjI)
qed

end
